theory Spec2Isabelle
  imports Main
begin

section \<open>Data model\<close>

text \<open>
  The persisted shape of a note (table \<open>note\<close> of the migration, plus the
  \<open>deviceId\<close> that the creation route writes). The primary key \<open>id\<close> is called
  \<open>nid\<close> here. Timestamps are milliseconds since the epoch.
\<close>

record Note =
  nid :: string
  content :: string
  ndeviceId :: string
  viewed :: bool
  createdAt :: int

text \<open>The usage row of a device, as \<open>getOrCreateUsage\<close> reads and writes it.\<close>

record NoteUsage =
  uid :: nat
  deviceId :: string
  month :: int
  year :: int
  count :: int
  isPremium :: bool

text \<open>
  The world a request runs in: the two tables, the one-shot timers that
  \<open>setTimeout\<close> has armed and that have not fired yet (due time and note id, in the
  order they were armed), and the clock.
\<close>

record world =
  noteRows :: "Note list"
  noteUsages :: "NoteUsage list"
  timers :: "(int \<times> string) list"
  now :: int

text \<open>
  Every call to the storage layer can throw. A request is run with a fault plan: the
  \<open>k\<close>-th storage call of the handler throws when the plan holds \<open>True\<close> at
  position \<open>k\<close>. The empty plan is a storage layer that works.
\<close>

datatype db_error = StorageFailure | RecordNotFound | UniqueViolation

type_synonym faults = "bool list"

definition throws :: "faults \<Rightarrow> nat \<Rightarrow> bool" where
  "throws fs k = (k < length fs \<and> fs ! k)"

definition storage_ok :: "faults \<Rightarrow> bool" where
  "storage_ok fs = (True \<notin> set fs)"

section \<open>The storage layer\<close>

definition lookup :: "world \<Rightarrow> string \<Rightarrow> Note option" where
  "lookup s i = find (\<lambda>n. nid n = i) (noteRows s)"

text \<open>\<open>db.note.findUnique({ where: { id } })\<close>\<close>

definition note_findUnique :: "bool \<Rightarrow> world \<Rightarrow> string \<Rightarrow> db_error + Note option" where
  "note_findUnique fail s i = (if fail then Inl StorageFailure else Inr (lookup s i))"

text \<open>
  \<open>db.note.update({ where: { id }, data })\<close>: the write is keyed by the id alone, and
  throws when no row has that id.
\<close>

definition note_update :: "bool \<Rightarrow> string \<Rightarrow> (Note \<Rightarrow> Note) \<Rightarrow> world \<Rightarrow> db_error + world" where
  "note_update fail i f s =
     (if fail then Inl StorageFailure
      else if lookup s i = None then Inl RecordNotFound
      else Inr (s\<lparr>noteRows := map (\<lambda>n. if nid n = i then f n else n) (noteRows s)\<rparr>))"

text \<open>\<open>db.note.deleteMany({ where })\<close>: returns the number of rows deleted.\<close>

definition note_deleteMany :: "bool \<Rightarrow> (Note \<Rightarrow> bool) \<Rightarrow> world \<Rightarrow> db_error + (nat \<times> world)" where
  "note_deleteMany fail P s =
     (if fail then Inl StorageFailure
      else Inr (length (filter P (noteRows s)), s\<lparr>noteRows := filter (\<lambda>n. \<not> P n) (noteRows s)\<rparr>))"

text \<open>\<open>db.note.create({ data })\<close>: the primary key is unique.\<close>

definition note_create :: "bool \<Rightarrow> Note \<Rightarrow> world \<Rightarrow> db_error + world" where
  "note_create fail n s =
     (if fail then Inl StorageFailure
      else if lookup s (nid n) \<noteq> None then Inl UniqueViolation
      else Inr (s\<lparr>noteRows := noteRows s @ [n]\<rparr>))"

text \<open>
  \<open>db.noteUsage.findFirst({ where: { deviceId }, orderBy: { id: 'desc' } })\<close>: the row
  of the device with the greatest id.
\<close>

definition usage_latest :: "string \<Rightarrow> NoteUsage list \<Rightarrow> NoteUsage option" where
  "usage_latest d us =
     (case filter (\<lambda>u. deviceId u = d) us of
        [] \<Rightarrow> None
      | v # vs \<Rightarrow> Some (fold (\<lambda>u best. if uid best < uid u then u else best) vs v))"

definition usage_findFirst :: "bool \<Rightarrow> world \<Rightarrow> string \<Rightarrow> db_error + NoteUsage option" where
  "usage_findFirst fail s d =
     (if fail then Inl StorageFailure else Inr (usage_latest d (noteUsages s)))"

definition usage_create :: "bool \<Rightarrow> NoteUsage \<Rightarrow> world \<Rightarrow> (db_error + NoteUsage) \<times> world" where
  "usage_create fail u s =
     (if fail then (Inl StorageFailure, s)
      else if find (\<lambda>v. uid v = uid u) (noteUsages s) \<noteq> None then (Inl UniqueViolation, s)
      else (Inr u, s\<lparr>noteUsages := noteUsages s @ [u]\<rparr>))"

definition usage_update ::
  "bool \<Rightarrow> nat \<Rightarrow> (NoteUsage \<Rightarrow> NoteUsage) \<Rightarrow> world \<Rightarrow> (db_error + NoteUsage) \<times> world" where
  "usage_update fail k f s =
     (if fail then (Inl StorageFailure, s)
      else (case find (\<lambda>v. uid v = k) (noteUsages s) of
              None \<Rightarrow> (Inl RecordNotFound, s)
            | Some v \<Rightarrow>
                (Inr (f v),
                 s\<lparr>noteUsages := map (\<lambda>w. if uid w = k then f w else w) (noteUsages s)\<rparr>)))"

section \<open>Responses\<close>

text \<open>
  The page that \<open>renderPage\<close> builds is a fixed template with holes. A page is kept as
  the sequence of its pieces: \<open>Static k\<close> is the \<open>k\<close>-th literal stretch of the
  template, \<open>Interp x\<close> a string spliced in, \<open>Markup m\<close> one of the four literal
  bodies the route passes as \<open>content\<close>.
\<close>

datatype markup = NotFoundMarkup | DestroyedMarkup | RevealMarkup | ErrorMarkup

datatype piece = Static nat | Interp string | Markup markup

datatype body =
    NoteContent string bool
  | NoteError string string
  | RevealSuccess bool
  | RevealError string
  | Usage int int bool bool
  | Created string bool
  | ValidationError
  | Html "piece list"

record response =
  status :: nat
  body :: body

definition json :: "body \<Rightarrow> nat \<Rightarrow> response" where
  "json b st = \<lparr>status = st, body = b\<rparr>"

definition html :: "piece list \<Rightarrow> nat \<Rightarrow> response" where
  "html p st = \<lparr>status = st, body = Html p\<rparr>"

text \<open>\<open>encryptedContent.replace(/'/g, "\\'")\<close>: a backslash before every single quote.\<close>

fun replace_quotes :: "string \<Rightarrow> string" where
  "replace_quotes [] = []"
| "replace_quotes (c # cs) =
     (if c = CHR 0x27 then CHR 0x5C # CHR 0x27 # replace_quotes cs else c # replace_quotes cs)"

definition renderPage ::
  "string \<Rightarrow> markup \<Rightarrow> string \<Rightarrow> bool \<Rightarrow> string \<Rightarrow> string \<Rightarrow> piece list" where
  "renderPage title content' bgColor includeDecryption encryptedContent noteId =
     [Static 0, Interp title, Static 1, Interp bgColor, Static 2, Markup content', Static 3]
     @ (if includeDecryption
        then [Static 4, Interp noteId, Static 5, Interp (replace_quotes encryptedContent), Static 6]
        else [])
     @ [Static 7]"

section \<open>The reveal routes\<close>

definition SENTINEL :: string where
  "SENTINEL = ''[DESTROYED]''"

definition GRACE_DELAY_MS :: int where
  "GRACE_DELAY_MS = 5000"

text \<open>\<open>setTimeout(callback, 5000)\<close>: arm a one-shot timer for the scrub of note \<open>i\<close>.\<close>

definition setTimeout_scrub :: "string \<Rightarrow> world \<Rightarrow> world" where
  "setTimeout_scrub i s = s\<lparr>timers := timers s @ [(now s + GRACE_DELAY_MS, i)]\<rparr>"

text \<open>
  \<open>GET /api/notes/:id\<close>. The handler suspends at \<open>await db.note.findUnique\<close>; what it
  does once the lookup has answered is \<open>api_get_note_resume\<close>, which runs in the world
  as it is by then. Run without interruption, the handler resumes in the world it read.
\<close>

definition api_get_note_resume ::
  "faults \<Rightarrow> string \<Rightarrow> db_error + Note option \<Rightarrow> world \<Rightarrow> response \<times> world" where
  "api_get_note_resume fs i r s =
     (case r of
        Inl e \<Rightarrow> (json (NoteError ''Failed to retrieve note'' ''NOT_FOUND'') 500, s)
      | Inr None \<Rightarrow> (json (NoteError ''Note not found'' ''NOT_FOUND'') 404, s)
      | Inr (Some n) \<Rightarrow>
          if viewed n
          then (json (NoteError ''This note has already been viewed and destroyed''
                        ''ALREADY_VIEWED'') 410, s)
          else (case note_update (throws fs 1) i (\<lambda>m. m\<lparr>viewed := True\<rparr>) s of
                  Inl e \<Rightarrow> (json (NoteError ''Failed to retrieve note'' ''NOT_FOUND'') 500, s)
                | Inr s' \<Rightarrow> (json (NoteContent (content n) True) 200, setTimeout_scrub i s')))"

definition api_get_note :: "faults \<Rightarrow> string \<Rightarrow> world \<Rightarrow> response \<times> world" where
  "api_get_note fs i s = api_get_note_resume fs i (note_findUnique (throws fs 0) s i) s"

text \<open>\<open>GET /note/:id\<close>, the web page load.\<close>

definition web_get_note :: "faults \<Rightarrow> string \<Rightarrow> world \<Rightarrow> response \<times> world" where
  "web_get_note fs i s =
     (case note_findUnique (throws fs 0) s i of
        Inl e \<Rightarrow> (html (renderPage ''Error'' ErrorMarkup ''#A855F7'' False [] []) 500, s)
      | Inr None \<Rightarrow> (html (renderPage ''Not Found'' NotFoundMarkup ''#E74C3C'' False [] []) 404, s)
      | Inr (Some n) \<Rightarrow>
          if viewed n
          then (html (renderPage ''Note Destroyed'' DestroyedMarkup ''#FF8A00'' False [] []) 410, s)
          else (html (renderPage ''Secret Note'' RevealMarkup ''#00FF85'' True (content n) i) 200, s))"

text \<open>\<open>POST /note/:id/reveal\<close>, split at its first \<open>await\<close> like the API route.\<close>

definition web_reveal_resume ::
  "faults \<Rightarrow> string \<Rightarrow> db_error + Note option \<Rightarrow> world \<Rightarrow> response \<times> world" where
  "web_reveal_resume fs i r s =
     (case r of
        Inl e \<Rightarrow> (json (RevealError ''Failed to reveal note'') 500, s)
      | Inr None \<Rightarrow> (json (RevealError ''Note not found'') 404, s)
      | Inr (Some n) \<Rightarrow>
          if viewed n
          then (json (RevealError ''Note already viewed'') 410, s)
          else (case note_update (throws fs 1) i (\<lambda>m. m\<lparr>viewed := True\<rparr>) s of
                  Inl e \<Rightarrow> (json (RevealError ''Failed to reveal note'') 500, s)
                | Inr s' \<Rightarrow> (json (RevealSuccess True) 200, setTimeout_scrub i s')))"

definition web_reveal :: "faults \<Rightarrow> string \<Rightarrow> world \<Rightarrow> response \<times> world" where
  "web_reveal fs i s = web_reveal_resume fs i (note_findUnique (throws fs 0) s i) s"

section \<open>The deferred scrub\<close>

text \<open>
  The timer's callback: overwrite the content with the sentinel, and swallow whatever
  the update throws.
\<close>

definition scrub :: "bool \<Rightarrow> string \<Rightarrow> world \<Rightarrow> world" where
  "scrub fail i s =
     (case note_update fail i (\<lambda>m. m\<lparr>content := SENTINEL\<rparr>) s of
        Inl e \<Rightarrow> s
      | Inr s' \<Rightarrow> s')"

fun run_scrubs :: "faults \<Rightarrow> string list \<Rightarrow> world \<Rightarrow> world" where
  "run_scrubs fs [] s = s"
| "run_scrubs fs (i # is) s = run_scrubs (tl fs) is (scrub (throws fs 0) i s)"

text \<open>
  The clock moves to \<open>t\<close>: every armed timer that is due by then fires, in the order
  armed, and is disarmed. The clock never moves back.
\<close>

definition advance :: "faults \<Rightarrow> int \<Rightarrow> world \<Rightarrow> world" where
  "advance fs t s =
     (if t < now s then s
      else run_scrubs fs (map snd (filter (\<lambda>(d, i). d \<le> t) (timers s)))
             (s\<lparr>timers := filter (\<lambda>(d, i). \<not> d \<le> t) (timers s), now := t\<rparr>))"

section \<open>The expiry sweep\<close>

definition DAYS_UNTIL_EXPIRY :: int where
  "DAYS_UNTIL_EXPIRY = 30"

definition msPerDay :: int where
  "msPerDay = 86400000"

text \<open>
  \<open>getDate\<close> and \<open>setDate\<close> work in the local time of the server. The time zone of
  the process is an input of the sweep: the offset of local time from UTC, in ms, at a
  UTC instant and at a local time value. \<open>LocalTime\<close> and \<open>UTC\<close> are the conversions
  of the language standard.
\<close>

record timezone =
  offsetAtUTC :: "int \<Rightarrow> int"
  offsetAtLocal :: "int \<Rightarrow> int"

definition LocalTime :: "timezone \<Rightarrow> int \<Rightarrow> int" where
  "LocalTime tz t = t + offsetAtUTC tz t"

definition UTC :: "timezone \<Rightarrow> int \<Rightarrow> int" where
  "UTC tz l = l - offsetAtLocal tz l"

text \<open>
  \<open>expiryDate.setDate(expiryDate.getDate() - DAYS_UNTIL_EXPIRY)\<close>, for \<open>expiryDate\<close>
  the current instant \<open>t\<close>: the local day number moves back by thirty, the local time
  within the day stays, and the local time so obtained is converted back to UTC.
\<close>

definition expiryDate :: "timezone \<Rightarrow> int \<Rightarrow> int" where
  "expiryDate tz t = UTC tz (LocalTime tz t - DAYS_UNTIL_EXPIRY * msPerDay)"

definition expired :: "timezone \<Rightarrow> int \<Rightarrow> Note \<Rightarrow> bool" where
  "expired tz t n = (viewed n = False \<and> createdAt n < expiryDate tz t)"

definition cleanupExpiredNotes :: "timezone \<Rightarrow> faults \<Rightarrow> world \<Rightarrow> nat \<times> world" where
  "cleanupExpiredNotes tz fs s =
     (case note_deleteMany (throws fs 0) (expired tz (now s)) s of
        Inl e \<Rightarrow> (0, s)
      | Inr (c, s') \<Rightarrow> (c, s'))"

section \<open>Usage and creation\<close>

definition FREE_NOTE_LIMIT :: int where
  "FREE_NOTE_LIMIT = 5"

text \<open>
  The subscription service is an external collaborator: whether the backend holds an
  API key (\<open>isRevenueCatConfigured\<close>) and what \<open>hasActivePremium\<close> answers for a
  device are inputs of a request.
\<close>

record revenuecat =
  isRevenueCatConfigured :: bool
  hasActivePremium :: "string \<Rightarrow> bool"

text \<open>
  \<open>getOrCreateUsage\<close>. Its storage calls are the calls 0 (findFirst), 1 (create) and
  2 (update) of the request. The id of a row it creates is chosen by the storage layer
  and is an input here. A row created before a later call throws stays created.
\<close>

definition getOrCreateUsage ::
  "faults \<Rightarrow> revenuecat \<Rightarrow> nat \<Rightarrow> string \<Rightarrow> bool \<Rightarrow> world \<Rightarrow> (db_error + NoteUsage) \<times> world" where
  "getOrCreateUsage fs rc newUid d verifySubscription s =
     (case usage_findFirst (throws fs 0) s d of
        Inl e \<Rightarrow> (Inl e, s)
      | Inr found \<Rightarrow>
          (case (case found of
                   Some u \<Rightarrow> (Inr u, s)
                 | None \<Rightarrow>
                     usage_create (throws fs 1)
                       \<lparr>uid = newUid, deviceId = d, month = 0, year = 0, count = 0,
                        isPremium = False\<rparr> s) of
             (Inl e, s1) \<Rightarrow> (Inl e, s1)
           | (Inr u, s1) \<Rightarrow>
               if verifySubscription \<and> \<not> isPremium u \<and> isRevenueCatConfigured rc
               then (if hasActivePremium rc d
                     then usage_update (throws fs 2) (uid u) (\<lambda>v. v\<lparr>isPremium := True\<rparr>) s1
                     else (Inr u, s1))
               else (Inr u, s1)))"

text \<open>\<open>GET /api/notes/usage/:deviceId\<close>\<close>

definition get_usage :: "faults \<Rightarrow> revenuecat \<Rightarrow> nat \<Rightarrow> string \<Rightarrow> world \<Rightarrow> response \<times> world" where
  "get_usage fs rc newUid d s =
     (case getOrCreateUsage fs rc newUid d True s of
        (Inr u, s') \<Rightarrow>
          (json (Usage (count u) FREE_NOTE_LIMIT (isPremium u)
                   (isPremium u \<or> count u < FREE_NOTE_LIMIT)) 200, s')
      | (Inl e, s') \<Rightarrow> (json (Usage 0 FREE_NOTE_LIMIT False True) 200, s'))"

text \<open>
  \<open>POST /api/notes\<close>. The validator answers 400 to a body outside the schema
  (content of 1 to 10000 characters, a non-empty device id). The id of the new note is
  chosen by the storage layer and is an input here.
\<close>

definition create_note ::
  "faults \<Rightarrow> revenuecat \<Rightarrow> nat \<Rightarrow> string \<Rightarrow> string \<Rightarrow> string \<Rightarrow> world \<Rightarrow> response \<times> world" where
  "create_note fs rc newUid newId c d s =
     (if length c < 1 \<or> 10000 < length c \<or> length d < 1 then (json ValidationError 400, s)
      else
       (case getOrCreateUsage fs rc newUid d True s of
          (Inl e, s1) \<Rightarrow> (json (NoteError ''Failed to create note'' ''NOT_FOUND'') 500, s1)
        | (Inr u, s1) \<Rightarrow>
            if \<not> isPremium u \<and> FREE_NOTE_LIMIT \<le> count u
            then (json (NoteError ''Free note limit reached'' ''LIMIT_REACHED'') 403, s1)
            else
             (case note_create (throws fs 3)
                     \<lparr>nid = newId, content = c, ndeviceId = d, viewed = False,
                      createdAt = now s1\<rparr> s1 of
                Inl e \<Rightarrow> (json (NoteError ''Failed to create note'' ''NOT_FOUND'') 500, s1)
              | Inr s2 \<Rightarrow>
                  (case usage_update (throws fs 4) (uid u) (\<lambda>v. v\<lparr>count := count v + 1\<rparr>) s2 of
                     (Inl e, s3) \<Rightarrow>
                       (json (NoteError ''Failed to create note'' ''NOT_FOUND'') 500, s3)
                   | (Inr v, s3) \<Rightarrow> (json (Created newId True) 200, s3)))))"

section \<open>Histories\<close>

text \<open>
  What can happen to the store, one thing at a time: a request on one of the routes,
  a pass of the expiry sweep, the clock moving on (and the due timers firing).
\<close>

datatype event =
    ApiGetNote faults string
  | WebGetNote faults string
  | WebReveal faults string
  | Cleanup timezone faults
  | ClockAdvance faults int
  | ApiCreateNote faults revenuecat nat string string string
  | ApiGetUsage faults revenuecat nat string

fun step :: "event \<Rightarrow> world \<Rightarrow> world" where
  "step (ApiGetNote fs i) s = snd (api_get_note fs i s)"
| "step (WebGetNote fs i) s = snd (web_get_note fs i s)"
| "step (WebReveal fs i) s = snd (web_reveal fs i s)"
| "step (Cleanup tz fs) s = snd (cleanupExpiredNotes tz fs s)"
| "step (ClockAdvance fs t) s = advance fs t s"
| "step (ApiCreateNote fs rc newUid newId c d) s = snd (create_note fs rc newUid newId c d s)"
| "step (ApiGetUsage fs rc newUid d) s = snd (get_usage fs rc newUid d s)"

fun final :: "event list \<Rightarrow> world \<Rightarrow> world" where
  "final [] s = s"
| "final (e # es) s = final es (step e s)"

text \<open>The status a reveal call on note \<open>i\<close> answers, when the event is one.\<close>

fun reveal_status :: "string \<Rightarrow> event \<Rightarrow> world \<Rightarrow> nat list" where
  "reveal_status i (ApiGetNote fs j) s =
     (if j = i then [status (fst (api_get_note fs j s))] else [])"
| "reveal_status i (WebReveal fs j) s =
     (if j = i then [status (fst (web_reveal fs j s))] else [])"
| "reveal_status i e s = []"

fun reveal_statuses :: "string \<Rightarrow> event list \<Rightarrow> world \<Rightarrow> nat list" where
  "reveal_statuses i [] s = []"
| "reveal_statuses i (e # es) s = reveal_status i e s @ reveal_statuses i es (step e s)"

text \<open>The fault plan of a reveal call on note \<open>i\<close>; the empty plan for any other event.\<close>

fun reveal_faults :: "string \<Rightarrow> event \<Rightarrow> faults" where
  "reveal_faults i (ApiGetNote fs j) = (if j = i then fs else [])"
| "reveal_faults i (WebReveal fs j) = (if j = i then fs else [])"
| "reveal_faults i e = []"

definition reveals_ok :: "string \<Rightarrow> event list \<Rightarrow> bool" where
  "reveals_ok i es = storage_ok (concat (map (reveal_faults i) es))"

text \<open>Note \<open>i\<close> is spent: its row exists and is marked viewed.\<close>

definition spent :: "string \<Rightarrow> world \<Rightarrow> bool" where
  "spent i s = (case lookup s i of None \<Rightarrow> False | Some n \<Rightarrow> viewed n)"

text \<open>Every armed timer is for a spent note.\<close>

definition timers_spent :: "world \<Rightarrow> bool" where
  "timers_spent s = list_all (\<lambda>(d, i). spent i s) (timers s)"

section \<open>Two requests in flight\<close>

text \<open>
  A request on either reveal surface is two stretches, cut at the \<open>await\<close> of its
  lookup. Two requests for the same note can run one after the other, or both can
  have read before either writes.
\<close>

datatype surface = DirectApi | WebAction

definition reveal_resume ::
  "surface \<Rightarrow> faults \<Rightarrow> string \<Rightarrow> db_error + Note option \<Rightarrow> world \<Rightarrow> response \<times> world" where
  "reveal_resume sf = (case sf of DirectApi \<Rightarrow> api_get_note_resume | WebAction \<Rightarrow> web_reveal_resume)"

definition reveal :: "surface \<Rightarrow> faults \<Rightarrow> string \<Rightarrow> world \<Rightarrow> response \<times> world" where
  "reveal sf = (case sf of DirectApi \<Rightarrow> api_get_note | WebAction \<Rightarrow> web_reveal)"

definition one_after_other ::
  "surface \<Rightarrow> surface \<Rightarrow> faults \<Rightarrow> faults \<Rightarrow> string \<Rightarrow> world \<Rightarrow> response \<times> response \<times> world" where
  "one_after_other sf1 sf2 fs1 fs2 i s =
     (let (a1, s1) = reveal sf1 fs1 i s;
          (a2, s2) = reveal sf2 fs2 i s1
      in (a1, a2, s2))"

definition both_read_first ::
  "surface \<Rightarrow> surface \<Rightarrow> faults \<Rightarrow> faults \<Rightarrow> string \<Rightarrow> world \<Rightarrow> response \<times> response \<times> world" where
  "both_read_first sf1 sf2 fs1 fs2 i s =
     (let r1 = note_findUnique (throws fs1 0) s i;
          r2 = note_findUnique (throws fs2 0) s i;
          (a1, s1) = reveal_resume sf1 fs1 i r1 s;
          (a2, s2) = reveal_resume sf2 fs2 i r2 s1
      in (a1, a2, s2))"

section \<open>Reading outcomes and worlds\<close>

text \<open>
  The outcome classes of the reveal gate as HTTP statuses: 404 for no note, 410 for a
  note already viewed, 200 for a note that can be revealed.
\<close>

definition reveal_class :: "Note option \<Rightarrow> nat" where
  "reveal_class r = (case r of None \<Rightarrow> 404 | Some n \<Rightarrow> if viewed n then 410 else 200)"

text \<open>
  Reading a page: its pieces, and the string spliced in right after the \<open>k\<close>-th
  literal stretch. In the template, stretch 5 ends with \<open>const encryptedContent = '\<close>.
\<close>

definition page_of :: "response \<Rightarrow> piece list" where
  "page_of r = (case body r of Html p \<Rightarrow> p | _ \<Rightarrow> [])"

fun spliced_after :: "nat \<Rightarrow> piece list \<Rightarrow> string option" where
  "spliced_after k (p # q # ps) =
     (if p = Static k then (case q of Interp x \<Rightarrow> Some x | _ \<Rightarrow> None)
      else spliced_after k (q # ps))"
| "spliced_after k ps = None"

text \<open>The primary key of the note table: no two rows share an id.\<close>

definition primary_key :: "world \<Rightarrow> bool" where
  "primary_key s = distinct (map nid (noteRows s))"

text \<open>The store at server start, at clock \<open>t\<close>: no rows, no timers.\<close>

definition empty_world :: "int \<Rightarrow> world" where
  "empty_world t = \<lparr>noteRows = [], noteUsages = [], timers = [], now = t\<rparr>"

section \<open>Sample worlds\<close>

text \<open>A store holding one unread note, \<open>X\<close>, with content \<open>hello\<close>.\<close>

definition hello_note :: Note where
  "hello_note = \<lparr>nid = ''X'', content = ''hello'', ndeviceId = ''device-1'', viewed = False,
                  createdAt = 0\<rparr>"

definition hello_world :: world where
  "hello_world = \<lparr>noteRows = [hello_note], noteUsages = [], timers = [], now = 1000\<rparr>"

text \<open>A note whose content holds a single quote: \<open>it's\<close>.\<close>

definition quote_note :: Note where
  "quote_note = \<lparr>nid = ''Q'', content = [CHR ''i'', CHR ''t'', CHR 0x27, CHR ''s''],
                  ndeviceId = ''device-1'', viewed = False, createdAt = 0\<rparr>"

definition quote_world :: world where
  "quote_world = \<lparr>noteRows = [quote_note], noteUsages = [], timers = [], now = 1000\<rparr>"

text \<open>
  Two time zones: UTC, and the offsets of New York in 2026 (five hours behind UTC, four
  from 8 March 07:00 UTC to 1 November 06:00 UTC, that is from 02:00 to 02:00 local).
\<close>

definition utc :: timezone where
  "utc = \<lparr>offsetAtUTC = (\<lambda>t. 0), offsetAtLocal = (\<lambda>l. 0)\<rparr>"

definition new_york_2026 :: timezone where
  "new_york_2026 =
     \<lparr>offsetAtUTC = (\<lambda>t. if 1772953200000 \<le> t \<and> t < 1793512800000
                          then - 14400000 else - 18000000),
      offsetAtLocal = (\<lambda>l. if 1772935200000 \<le> l \<and> l < 1793498400000
                            then - 14400000 else - 18000000)\<rparr>"

text \<open>
  A world for the sweep, thirty-one days after the epoch: an unread note and a viewed
  note created at the epoch, and an unread note created a day later.
\<close>

definition old_unread :: Note where
  "old_unread = \<lparr>nid = ''A'', content = ''a'', ndeviceId = ''device-1'', viewed = False,
                  createdAt = 0\<rparr>"

definition old_viewed :: Note where
  "old_viewed = \<lparr>nid = ''B'', content = ''b'', ndeviceId = ''device-1'', viewed = True,
                  createdAt = 0\<rparr>"

definition young_unread :: Note where
  "young_unread = \<lparr>nid = ''C'', content = ''c'', ndeviceId = ''device-1'', viewed = False,
                  createdAt = 86400000\<rparr>"

definition sweep_world :: world where
  "sweep_world = \<lparr>noteRows = [old_unread, old_viewed, young_unread], noteUsages = [],
                   timers = [], now = 2678400000\<rparr>"

text \<open>
  A world in New York on 20 March 2026 at 12:00 local time (16:00 UTC), holding an
  unread note created on 18 February at 11:30 local time (16:30 UTC): thirty calendar
  days and half an hour before, with daylight saving having begun in between.
\<close>

definition dst_note :: Note where
  "dst_note = \<lparr>nid = ''D'', content = ''d'', ndeviceId = ''device-1'', viewed = False,
                createdAt = 1771432200000\<rparr>"

definition dst_world :: world where
  "dst_world = \<lparr>noteRows = [dst_note], noteUsages = [], timers = [], now = 1774022400000\<rparr>"

text \<open>The world \<open>hello_world\<close> after its note has been revealed.\<close>

definition spent_world :: world where
  "spent_world = \<lparr>noteRows = [hello_note\<lparr>viewed := True\<rparr>], noteUsages = [],
                   timers = [(6000, ''X'')], now = 1000\<rparr>"

section \<open>Facts about the storage layer\<close>

lemma storage_ok_throws: "storage_ok fs \<Longrightarrow> \<not> throws fs k"
  by (auto simp: storage_ok_def throws_def in_set_conv_nth)

lemma storage_ok_Nil: "storage_ok []"
  by (simp add: storage_ok_def)

lemma find_map_update:
  assumes "\<And>n. nid (f n) = nid n"
  shows "find (\<lambda>n. nid n = j) (map (\<lambda>n. if nid n = i then f n else n) rows)
         = (if j = i then map_option f (find (\<lambda>n. nid n = i) rows)
            else find (\<lambda>n. nid n = j) rows)"
  using assms by (induction rows) auto

lemma lookup_update_rows:
  assumes "\<And>n. nid (f n) = nid n"
  shows "lookup (s\<lparr>noteRows := map (\<lambda>n. if nid n = i then f n else n) (noteRows s)\<rparr>) j
         = (if j = i then map_option f (lookup s i) else lookup s j)"
  using find_map_update [OF assms] by (simp add: lookup_def)

lemma lookup_setTimeout_scrub: "lookup (setTimeout_scrub i s) j = lookup s j"
  by (simp add: lookup_def setTimeout_scrub_def)

lemma lookup_hello_world: "lookup hello_world ''X'' = Some hello_note"
  by (simp add: lookup_def hello_world_def hello_note_def)

lemma lookup_hello_world_other: "lookup hello_world ''zzz'' = None"
  by (simp add: lookup_def hello_world_def hello_note_def)

section \<open>The direct API route\<close>

text \<open>
  C1. \<open>GET /api/notes/{id}\<close>, with the storage layer working: when no note has the
  id, the answer is 404 with code \<open>NOT_FOUND\<close> and the world is as before; when the
  note is already viewed, the answer is 410 with code \<open>ALREADY_VIEWED\<close> and the world
  is as before; otherwise the answer is 200 with the stored content and
  \<open>destroyed: true\<close>, and in the world the call leaves behind the note is marked
  viewed, every other note being as before.
\<close>

theorem api_get_note_contract:
  assumes "storage_ok fs"
  shows "(lookup s i = None \<longrightarrow>
            api_get_note fs i s = (json (NoteError ''Note not found'' ''NOT_FOUND'') 404, s))
       \<and> (\<forall>n. lookup s i = Some n \<and> viewed n \<longrightarrow>
            api_get_note fs i s =
              (json (NoteError ''This note has already been viewed and destroyed''
                       ''ALREADY_VIEWED'') 410, s))
       \<and> (\<forall>n. lookup s i = Some n \<and> \<not> viewed n \<longrightarrow>
            fst (api_get_note fs i s) = json (NoteContent (content n) True) 200
          \<and> lookup (snd (api_get_note fs i s)) i = Some (n\<lparr>viewed := True\<rparr>)
          \<and> (\<forall>j. j \<noteq> i \<longrightarrow> lookup (snd (api_get_note fs i s)) j = lookup s j))"
  using storage_ok_throws [OF assms]
  by (simp add: api_get_note_def api_get_note_resume_def note_findUnique_def note_update_def
      lookup_update_rows lookup_setTimeout_scrub)

theorem api_get_note_contract_witness:
  "storage_ok []
   \<and> lookup hello_world ''zzz'' = None
   \<and> api_get_note [] ''zzz'' hello_world
       = (json (NoteError ''Note not found'' ''NOT_FOUND'') 404, hello_world)
   \<and> lookup hello_world ''X'' = Some hello_note \<and> \<not> viewed hello_note
   \<and> fst (api_get_note [] ''X'' hello_world) = json (NoteContent ''hello'' True) 200
   \<and> lookup (snd (api_get_note [] ''X'' hello_world)) ''X'' = Some (hello_note\<lparr>viewed := True\<rparr>)
   \<and> viewed (hello_note\<lparr>viewed := True\<rparr>)
   \<and> api_get_note [] ''X'' (snd (api_get_note [] ''X'' hello_world))
       = (json (NoteError ''This note has already been viewed and destroyed''
                 ''ALREADY_VIEWED'') 410, snd (api_get_note [] ''X'' hello_world))"
proof -
  have nv: "\<not> viewed hello_note" by (simp add: hello_note_def)
  have ct: "content hello_note = ''hello''" by (simp add: hello_note_def)
  note a = api_get_note_contract [OF storage_ok_Nil, of hello_world "''zzz''"]
  note b = api_get_note_contract [OF storage_ok_Nil, of hello_world "''X''"]
  note c = api_get_note_contract
             [OF storage_ok_Nil, of "snd (api_get_note [] ''X'' hello_world)" "''X''"]
  from a lookup_hello_world_other
  have a1: "api_get_note [] ''zzz'' hello_world
              = (json (NoteError ''Note not found'' ''NOT_FOUND'') 404, hello_world)"
    by blast
  from b lookup_hello_world nv
  have b1: "fst (api_get_note [] ''X'' hello_world)
              = json (NoteContent (content hello_note) True) 200"
    and b2: "lookup (snd (api_get_note [] ''X'' hello_world)) ''X''
              = Some (hello_note\<lparr>viewed := True\<rparr>)"
    by blast+
  from c b2
  have c1: "api_get_note [] ''X'' (snd (api_get_note [] ''X'' hello_world))
              = (json (NoteError ''This note has already been viewed and destroyed''
                        ''ALREADY_VIEWED'') 410, snd (api_get_note [] ''X'' hello_world))"
    by simp
  show ?thesis
    using storage_ok_Nil lookup_hello_world_other a1 lookup_hello_world nv b1 b2 c1 ct
    by simp
qed

section \<open>The two reveal surfaces\<close>

lemma api_get_note_world:
  "snd (api_get_note fs i s) = snd (web_reveal fs i s)"
  by (auto simp: api_get_note_def web_reveal_def api_get_note_resume_def web_reveal_resume_def
      split: sum.splits option.splits)

lemma api_get_note_status:
  "status (fst (api_get_note fs i s)) = status (fst (web_reveal fs i s))"
  by (auto simp: api_get_note_def web_reveal_def api_get_note_resume_def web_reveal_resume_def
      json_def split: sum.splits option.splits)

lemma web_reveal_status_ok:
  "storage_ok fs \<Longrightarrow> status (fst (web_reveal fs i s)) = reveal_class (lookup s i)"
  using storage_ok_throws [of fs]
  by (simp add: web_reveal_def web_reveal_resume_def note_findUnique_def note_update_def
      json_def reveal_class_def split: option.splits)

lemma web_reveal_lookup:
  "lookup (snd (web_reveal fs j s)) i
     = (if j = i \<and> status (fst (web_reveal fs j s)) = 200
        then map_option (\<lambda>n. n\<lparr>viewed := True\<rparr>) (lookup s i) else lookup s i)"
  by (simp add: web_reveal_def web_reveal_resume_def note_findUnique_def note_update_def
      json_def lookup_update_rows lookup_setTimeout_scrub split: option.splits)

lemma web_reveal_200:
  "status (fst (web_reveal fs j s)) = 200 \<Longrightarrow> \<exists>n. lookup s j = Some n \<and> \<not> viewed n"
  by (simp add: web_reveal_def web_reveal_resume_def note_findUnique_def note_update_def
      json_def split: option.splits if_splits)

lemma web_reveal_changed:
  assumes "status (fst (web_reveal fs i s)) = 200"
  shows "snd (web_reveal fs i s)
           = s\<lparr>noteRows := map (\<lambda>m. if nid m = i then m\<lparr>viewed := True\<rparr> else m) (noteRows s),
               timers := timers s @ [(now s + 5000, i)]\<rparr>"
  using assms
  by (simp add: web_reveal_def web_reveal_resume_def note_findUnique_def note_update_def
      json_def setTimeout_scrub_def GRACE_DELAY_MS_def split: option.splits if_splits)

lemma web_reveal_unchanged:
  assumes "status (fst (web_reveal fs i s)) \<noteq> 200"
  shows "snd (web_reveal fs i s) = s"
  using assms
  by (simp add: web_reveal_def web_reveal_resume_def note_findUnique_def note_update_def
      json_def split: option.splits if_splits)

text \<open>
  C7. The direct route \<open>GET /api/notes/{id}\<close> and the web action
  \<open>POST /note/{id}/reveal\<close> make the same transition: from every world, for every id
  and every behaviour of the storage layer, they leave the same world behind and
  answer the same status; with the storage layer working, that status is 404 for no
  note, 410 for a viewed note and 200 for an unread one. A 200 is answered only for an
  unread note, and the world either surface then leaves is the world before with the
  rows of that id marked viewed and one scrub armed for that id 5000 ms after the
  current time; with any other status the world is left exactly as it was. So for an
  unread note and a working storage layer both surfaces mark the note viewed and arm
  the same scrub. Whichever surface answers 200 first, the other then answers 410.
\<close>

theorem surfaces_same_contract:
  "snd (api_get_note fs i s) = snd (web_reveal fs i s)
   \<and> status (fst (api_get_note fs i s)) = status (fst (web_reveal fs i s))
   \<and> (storage_ok fs \<longrightarrow> status (fst (api_get_note fs i s)) = reveal_class (lookup s i))
   \<and> (status (fst (api_get_note fs i s)) = 200 \<longrightarrow>
        (\<exists>n. lookup s i = Some n \<and> \<not> viewed n)
      \<and> snd (api_get_note fs i s)
          = s\<lparr>noteRows := map (\<lambda>m. if nid m = i then m\<lparr>viewed := True\<rparr> else m) (noteRows s),
              timers := timers s @ [(now s + 5000, i)]\<rparr>
      \<and> snd (web_reveal fs i s)
          = s\<lparr>noteRows := map (\<lambda>m. if nid m = i then m\<lparr>viewed := True\<rparr> else m) (noteRows s),
              timers := timers s @ [(now s + 5000, i)]\<rparr>)
   \<and> (status (fst (api_get_note fs i s)) \<noteq> 200 \<longrightarrow>
        snd (api_get_note fs i s) = s \<and> snd (web_reveal fs i s) = s)
   \<and> (\<forall>n. storage_ok fs \<and> lookup s i = Some n \<and> \<not> viewed n \<longrightarrow>
        lookup (snd (api_get_note fs i s)) i = Some (n\<lparr>viewed := True\<rparr>)
      \<and> lookup (snd (web_reveal fs i s)) i = Some (n\<lparr>viewed := True\<rparr>)
      \<and> timers (snd (api_get_note fs i s)) = timers s @ [(now s + 5000, i)]
      \<and> timers (snd (web_reveal fs i s)) = timers s @ [(now s + 5000, i)])
   \<and> (storage_ok fs' \<and> status (fst (api_get_note fs i s)) = 200 \<longrightarrow>
        status (fst (web_reveal fs' i (snd (api_get_note fs i s)))) = 410)
   \<and> (storage_ok fs' \<and> status (fst (web_reveal fs i s)) = 200 \<longrightarrow>
        status (fst (api_get_note fs' i (snd (web_reveal fs i s)))) = 410)"
proof -
  let ?w = "s\<lparr>noteRows := map (\<lambda>m. if nid m = i then m\<lparr>viewed := True\<rparr> else m) (noteRows s),
               timers := timers s @ [(now s + 5000, i)]\<rparr>"
  have first_wins: "status (fst (web_reveal fs' i (snd (web_reveal fs i s)))) = 410"
    if ok: "storage_ok fs'" and won: "status (fst (web_reveal fs i s)) = 200"
  proof -
    from web_reveal_200 [OF won] obtain n where n: "lookup s i = Some n" by blast
    with won have "lookup (snd (web_reveal fs i s)) i = Some (n\<lparr>viewed := True\<rparr>)"
      by (simp add: web_reveal_lookup)
    with ok show ?thesis by (simp add: web_reveal_status_ok reveal_class_def)
  qed
  have changed: "(\<exists>n. lookup s i = Some n \<and> \<not> viewed n) \<and> snd (web_reveal fs i s) = ?w"
    if "status (fst (web_reveal fs i s)) = 200"
    using web_reveal_200 [OF that] web_reveal_changed [OF that] by simp
  have unchanged: "snd (web_reveal fs i s) = s" if "status (fst (web_reveal fs i s)) \<noteq> 200"
    using that by (rule web_reveal_unchanged)
  have unread: "lookup (snd (web_reveal fs i s)) i = Some (n\<lparr>viewed := True\<rparr>)
        \<and> timers (snd (web_reveal fs i s)) = timers s @ [(now s + 5000, i)]"
    if "storage_ok fs" "lookup s i = Some n" "\<not> viewed n" for n
  proof -
    from that have won: "status (fst (web_reveal fs i s)) = 200"
      by (simp add: web_reveal_status_ok reveal_class_def)
    from that(2) won have "lookup (snd (web_reveal fs i s)) i = Some (n\<lparr>viewed := True\<rparr>)"
      by (simp add: web_reveal_lookup)
    moreover from web_reveal_changed [OF won]
    have "timers (snd (web_reveal fs i s)) = timers s @ [(now s + 5000, i)]" by simp
    ultimately show ?thesis by simp
  qed
  have c: "storage_ok fs \<longrightarrow> status (fst (web_reveal fs i s)) = reveal_class (lookup s i)"
    by (simp add: web_reveal_status_ok)
  show ?thesis
    unfolding api_get_note_world api_get_note_status
    using c changed unchanged unread first_wins by blast
qed

theorem surfaces_same_contract_witness:
  "snd (api_get_note [] ''X'' hello_world) = snd (web_reveal [] ''X'' hello_world)
   \<and> status (fst (api_get_note [] ''X'' hello_world)) = 200
   \<and> status (fst (web_reveal [] ''X'' hello_world)) = 200
   \<and> storage_ok []
   \<and> reveal_class (lookup hello_world ''X'') = 200
   \<and> lookup hello_world ''X'' = Some hello_note \<and> \<not> viewed hello_note
   \<and> lookup (snd (api_get_note [] ''X'' hello_world)) ''X'' = Some (hello_note\<lparr>viewed := True\<rparr>)
   \<and> lookup (snd (web_reveal [] ''X'' hello_world)) ''X'' = Some (hello_note\<lparr>viewed := True\<rparr>)
   \<and> timers (snd (api_get_note [] ''X'' hello_world)) = [(6000, ''X'')]
   \<and> timers (snd (web_reveal [] ''X'' hello_world)) = [(6000, ''X'')]
   \<and> status (fst (web_reveal [] ''X'' (snd (api_get_note [] ''X'' hello_world)))) = 410
   \<and> status (fst (api_get_note [] ''X'' (snd (web_reveal [] ''X'' hello_world)))) = 410
   \<and> status (fst (api_get_note [] ''zzz'' hello_world)) \<noteq> 200
   \<and> snd (api_get_note [] ''zzz'' hello_world) = hello_world
   \<and> snd (web_reveal [] ''zzz'' hello_world) = hello_world"
proof -
  note t = surfaces_same_contract [of "[]" "''X''" hello_world "[]"]
  note z = surfaces_same_contract [of "[]" "''zzz''" hello_world "[]"]
  have nv: "\<not> viewed hello_note" by (simp add: hello_note_def)
  have tm: "timers hello_world @ [(now hello_world + 5000, ''X'')] = [(6000, ''X'')]"
    by (simp add: hello_world_def)
  have c: "reveal_class (lookup hello_world ''X'') = 200"
    by (simp add: lookup_hello_world reveal_class_def hello_note_def)
  have cz: "reveal_class (lookup hello_world ''zzz'') = 404"
    by (simp add: lookup_hello_world_other reveal_class_def)
  from t have w: "snd (api_get_note [] ''X'' hello_world) = snd (web_reveal [] ''X'' hello_world)"
    and e: "status (fst (api_get_note [] ''X'' hello_world))
              = status (fst (web_reveal [] ''X'' hello_world))"
    by blast+
  from t c storage_ok_Nil have a: "status (fst (api_get_note [] ''X'' hello_world)) = 200"
    by metis
  from e a have b: "status (fst (web_reveal [] ''X'' hello_world)) = 200" by simp
  from t storage_ok_Nil lookup_hello_world nv
  have u: "lookup (snd (api_get_note [] ''X'' hello_world)) ''X'' = Some (hello_note\<lparr>viewed := True\<rparr>)"
    "lookup (snd (web_reveal [] ''X'' hello_world)) ''X'' = Some (hello_note\<lparr>viewed := True\<rparr>)"
    "timers (snd (api_get_note [] ''X'' hello_world))
       = timers hello_world @ [(now hello_world + 5000, ''X'')]"
    "timers (snd (web_reveal [] ''X'' hello_world))
       = timers hello_world @ [(now hello_world + 5000, ''X'')]"
    by blast+
  from t a storage_ok_Nil
  have f: "status (fst (web_reveal [] ''X'' (snd (api_get_note [] ''X'' hello_world)))) = 410"
    by blast
  from t b storage_ok_Nil
  have g: "status (fst (api_get_note [] ''X'' (snd (web_reveal [] ''X'' hello_world)))) = 410"
    by blast
  from z cz storage_ok_Nil have "status (fst (api_get_note [] ''zzz'' hello_world)) = 404"
    by metis
  then have nz: "status (fst (api_get_note [] ''zzz'' hello_world)) \<noteq> 200" by simp
  from z nz have k: "snd (api_get_note [] ''zzz'' hello_world) = hello_world"
    "snd (web_reveal [] ''zzz'' hello_world) = hello_world"
    by blast+
  from w a b c f g storage_ok_Nil lookup_hello_world nv u [unfolded tm] nz k
  show ?thesis by blast
qed

section \<open>The web page load\<close>

lemma web_get_note_world: "snd (web_get_note fs i s) = s"
  by (simp add: web_get_note_def split: sum.splits option.splits)

text \<open>
  C4. Any number of page loads \<open>GET /note/{id}\<close>, whatever the storage layer does
  during each, leave the world exactly as it was: rows, usage, timers and clock. In
  particular an unread note is still unread after them, and it is the reveal action
  \<open>POST /note/{id}/reveal\<close> that then marks it viewed.
\<close>

theorem page_load_no_mutation:
  "final (map (\<lambda>fs. WebGetNote fs i) fss) s = s
   \<and> (storage_ok fs \<and> lookup s i = Some n \<and> \<not> viewed n \<longrightarrow>
        lookup (final (map (\<lambda>fs. WebGetNote fs i) fss) s) i = Some n
      \<and> lookup (snd (web_reveal fs i (final (map (\<lambda>fs. WebGetNote fs i) fss) s))) i
          = Some (n\<lparr>viewed := True\<rparr>))"
proof -
  have same: "final (map (\<lambda>fs. WebGetNote fs i) fss) s = s"
    by (induction fss) (simp_all add: web_get_note_world)
  have "lookup (snd (web_reveal fs i s)) i = Some (n\<lparr>viewed := True\<rparr>)"
    if "storage_ok fs" "lookup s i = Some n" "\<not> viewed n"
    using that by (simp add: web_reveal_lookup web_reveal_status_ok reveal_class_def)
  with same show ?thesis by simp
qed

theorem page_load_no_mutation_witness:
  "final (map (\<lambda>fs. WebGetNote fs ''X'') [[], [True], []]) hello_world = hello_world
   \<and> storage_ok [] \<and> lookup hello_world ''X'' = Some hello_note \<and> \<not> viewed hello_note
   \<and> lookup (final (map (\<lambda>fs. WebGetNote fs ''X'') [[], [True], []]) hello_world) ''X''
       = Some hello_note
   \<and> lookup (snd (web_reveal [] ''X''
        (final (map (\<lambda>fs. WebGetNote fs ''X'') [[], [True], []]) hello_world))) ''X''
       = Some (hello_note\<lparr>viewed := True\<rparr>)"
proof -
  have nv: "\<not> viewed hello_note" by (simp add: hello_note_def)
  note t = page_load_no_mutation [of "''X''" "[[], [True], []]" hello_world "[]" hello_note]
  from t storage_ok_Nil lookup_hello_world nv show ?thesis by blast
qed

lemma replace_quotes_id: "CHR 0x27 \<notin> set cs \<Longrightarrow> replace_quotes cs = cs"
  by (induction cs) auto

text \<open>
  C5, as amended. For an unread note, with the lookup succeeding, the page load answers
  200 with the reveal page, the world unchanged and the note still unread. The string
  spliced in as the \<open>encryptedContent\<close> script variable is the stored content with a
  backslash put before every single quote; it is the stored content itself when the
  content holds no single quote.
\<close>

theorem page_load_discloses_content:
  assumes "\<not> throws fs 0" and "lookup s i = Some n" and "\<not> viewed n"
  shows "web_get_note fs i s
           = (html (renderPage ''Secret Note'' RevealMarkup ''#00FF85'' True (content n) i) 200, s)
       \<and> spliced_after 5 (page_of (fst (web_get_note fs i s))) = Some (replace_quotes (content n))
       \<and> (CHR 0x27 \<notin> set (content n) \<longrightarrow>
            spliced_after 5 (page_of (fst (web_get_note fs i s))) = Some (content n))
       \<and> lookup (snd (web_get_note fs i s)) i = Some n"
  using assms
  by (simp add: web_get_note_def note_findUnique_def html_def page_of_def renderPage_def
      replace_quotes_id)

theorem page_load_discloses_content_witness:
  "\<not> throws [] 0 \<and> lookup hello_world ''X'' = Some hello_note \<and> \<not> viewed hello_note
   \<and> CHR 0x27 \<notin> set (content hello_note)
   \<and> status (fst (web_get_note [] ''X'' hello_world)) = 200
   \<and> spliced_after 5 (page_of (fst (web_get_note [] ''X'' hello_world))) = Some ''hello''
   \<and> lookup (snd (web_get_note [] ''X'' hello_world)) ''X'' = Some hello_note"
proof -
  have nt: "\<not> throws [] 0" by (simp add: throws_def)
  have nv: "\<not> viewed hello_note" by (simp add: hello_note_def)
  have nq: "CHR 0x27 \<notin> set (content hello_note)" by (simp add: hello_note_def)
  have ct: "content hello_note = ''hello''" by (simp add: hello_note_def)
  note t = page_load_discloses_content [OF nt lookup_hello_world nv]
  from t have st: "status (fst (web_get_note [] ''X'' hello_world)) = 200"
    by (simp add: html_def)
  from t nq have sp: "spliced_after 5 (page_of (fst (web_get_note [] ''X'' hello_world)))
                        = Some (content hello_note)"
    by blast
  from t have lk: "lookup (snd (web_get_note [] ''X'' hello_world)) ''X'' = Some hello_note"
    by blast
  from nt nv nq st sp lk lookup_hello_world show ?thesis unfolding ct by blast
qed

text \<open>
  C5, as stated, fails on a note whose content is \<open>it's\<close>: the page carries
  \<open>it\'s\<close>, and the stored content is spliced in nowhere.
\<close>

theorem page_load_verbatim_counterexample:
  "lookup quote_world ''Q'' = Some quote_note \<and> \<not> viewed quote_note
   \<and> status (fst (web_get_note [] ''Q'' quote_world)) = 200
   \<and> spliced_after 5 (page_of (fst (web_get_note [] ''Q'' quote_world)))
       = Some [CHR ''i'', CHR ''t'', CHR 0x5C, CHR 0x27, CHR ''s'']
   \<and> spliced_after 5 (page_of (fst (web_get_note [] ''Q'' quote_world)))
       \<noteq> Some (content quote_note)
   \<and> Interp (content quote_note) \<notin> set (page_of (fst (web_get_note [] ''Q'' quote_world)))"
  by (simp add: lookup_def quote_world_def quote_note_def web_get_note_def note_findUnique_def
      throws_def html_def page_of_def renderPage_def)

section \<open>The usage route\<close>

text \<open>
  C10. When the lookup of \<open>GET /api/notes/usage/{deviceId}\<close> throws, the route
  answers 200 with count 0, limit 5, not premium, can create, and the world is
  unchanged; the same body is answered whenever \<open>getOrCreateUsage\<close> throws.
\<close>

theorem usage_check_fails_open:
  "(throws fs 0 \<longrightarrow>
      get_usage fs rc newUid d s = (json (Usage 0 5 False True) 200, s))
   \<and> (\<forall>e. fst (getOrCreateUsage fs rc newUid d True s) = Inl e \<longrightarrow>
        fst (get_usage fs rc newUid d s) = json (Usage 0 5 False True) 200)"
  by (auto simp: get_usage_def getOrCreateUsage_def usage_findFirst_def FREE_NOTE_LIMIT_def
      split: prod.splits sum.splits)

theorem usage_check_fails_open_witness:
  "throws [True] 0
   \<and> get_usage [True] \<lparr>isRevenueCatConfigured = False, hasActivePremium = (\<lambda>d. False)\<rparr>
        1 ''device-1'' hello_world = (json (Usage 0 5 False True) 200, hello_world)
   \<and> fst (getOrCreateUsage [True] \<lparr>isRevenueCatConfigured = False, hasActivePremium = (\<lambda>d. False)\<rparr>
        1 ''device-1'' True hello_world) = Inl StorageFailure
   \<and> fst (get_usage [True] \<lparr>isRevenueCatConfigured = False, hasActivePremium = (\<lambda>d. False)\<rparr>
        1 ''device-1'' hello_world) = json (Usage 0 5 False True) 200"
proof -
  have th: "throws [True] 0" by (simp add: throws_def)
  have g: "fst (getOrCreateUsage [True] \<lparr>isRevenueCatConfigured = False, hasActivePremium = (\<lambda>d. False)\<rparr>
        1 ''device-1'' True hello_world) = Inl StorageFailure"
    by (simp add: getOrCreateUsage_def usage_findFirst_def th)
  note t = usage_check_fails_open [of "[True]"
      "\<lparr>isRevenueCatConfigured = False, hasActivePremium = (\<lambda>d. False)\<rparr>" 1 "''device-1''" hello_world]
  from t th g show ?thesis by simp
qed

section \<open>How each operation moves a note\<close>

subsection \<open>Rows\<close>

lemma find_filter_keep: "find P xs = Some n \<Longrightarrow> Q n \<Longrightarrow> find P (filter Q xs) = Some n"
  by (induction xs) (auto split: if_splits)

lemma find_filter_distinct:
  "distinct (map nid rows) \<Longrightarrow>
   find (\<lambda>n. nid n = i) (filter Q rows)
     = (case find (\<lambda>n. nid n = i) rows of None \<Rightarrow> None | Some n \<Rightarrow> if Q n then Some n else None)"
proof (induction rows)
  case Nil
  then show ?case by simp
next
  case (Cons r rows)
  show ?case
  proof (cases "nid r = i")
    case True
    with Cons.prems have "i \<notin> nid ` set rows" by simp
    then have "\<forall>n \<in> set rows. nid n \<noteq> i" by blast
    then have "find (\<lambda>n. nid n = i) (filter Q rows) = None"
      by (simp add: find_None_iff)
    with True show ?thesis by simp
  next
    case False
    with Cons show ?thesis by simp
  qed
qed

subsection \<open>Frame facts\<close>

lemma usage_create_frame:
  "noteRows (snd (usage_create b u s)) = noteRows s
   \<and> timers (snd (usage_create b u s)) = timers s
   \<and> now (snd (usage_create b u s)) = now s"
  by (simp add: usage_create_def)

lemma usage_update_frame:
  "noteRows (snd (usage_update b k f s)) = noteRows s
   \<and> timers (snd (usage_update b k f s)) = timers s
   \<and> now (snd (usage_update b k f s)) = now s"
  by (simp add: usage_update_def split: option.splits)

lemma getOrCreateUsage_frame:
  "noteRows (snd (getOrCreateUsage fs rc newUid d v s)) = noteRows s
   \<and> timers (snd (getOrCreateUsage fs rc newUid d v s)) = timers s
   \<and> now (snd (getOrCreateUsage fs rc newUid d v s)) = now s"
proof -
  obtain r s1 where c: "usage_create (throws fs 1)
       \<lparr>uid = newUid, deviceId = d, month = 0, year = 0, count = 0, isPremium = False\<rparr> s = (r, s1)"
    by (cases "usage_create (throws fs 1)
       \<lparr>uid = newUid, deviceId = d, month = 0, year = 0, count = 0, isPremium = False\<rparr> s")
  with usage_create_frame [of "throws fs 1"
       "\<lparr>uid = newUid, deviceId = d, month = 0, year = 0, count = 0, isPremium = False\<rparr>" s]
  have s1: "noteRows s1 = noteRows s \<and> timers s1 = timers s \<and> now s1 = now s" by simp
  show ?thesis
    using c s1 usage_update_frame [of "throws fs 2" _ _ s] usage_update_frame [of "throws fs 2" _ _ s1]
    by (simp add: getOrCreateUsage_def usage_findFirst_def
        split: sum.splits option.splits prod.splits)
qed

lemma get_usage_frame:
  "noteRows (snd (get_usage fs rc newUid d s)) = noteRows s
   \<and> timers (snd (get_usage fs rc newUid d s)) = timers s
   \<and> now (snd (get_usage fs rc newUid d s)) = now s"
  using getOrCreateUsage_frame [of fs rc newUid d True s]
  by (auto simp: get_usage_def split: prod.splits sum.splits)

subsection \<open>Creation\<close>

lemma find_app:
  "find P (xs @ ys) = (case find P xs of Some x \<Rightarrow> Some x | None \<Rightarrow> find P ys)"
  by (induction xs) auto

lemma note_create_effect:
  "note_create b n s = Inr s' \<Longrightarrow>
     lookup s (nid n) = None \<and> noteRows s' = noteRows s @ [n]
     \<and> timers s' = timers s \<and> now s' = now s"
  by (auto simp: note_create_def split: if_splits)

lemma create_note_world:
  assumes g: "getOrCreateUsage fs rc newUid d True s = (r, s1)"
  shows "snd (create_note fs rc newUid newId c d s) = s
       \<or> snd (create_note fs rc newUid newId c d s) = s1
       \<or> (\<exists>s2 (u::NoteUsage). note_create (throws fs 3)
                 \<lparr>nid = newId, content = c, ndeviceId = d, viewed = False, createdAt = now s1\<rparr> s1
                   = Inr s2
              \<and> snd (create_note fs rc newUid newId c d s)
                   = snd (usage_update (throws fs 4) (uid u) (\<lambda>v. v\<lparr>count := count v + 1\<rparr>) s2))"
proof (cases "length c < 1 \<or> 10000 < length c \<or> length d < 1")
  case True
  then show ?thesis by (simp add: create_note_def)
next
  case valid: False
  show ?thesis
  proof (cases r)
    case (Inl e)
    with g valid show ?thesis by (simp add: create_note_def)
  next
    case (Inr u)
    show ?thesis
    proof (cases "\<not> isPremium u \<and> FREE_NOTE_LIMIT \<le> count u")
      case True
      with g valid Inr show ?thesis by (simp add: create_note_def)
    next
      case lim: False
      show ?thesis
      proof (cases "note_create (throws fs 3)
                 \<lparr>nid = newId, content = c, ndeviceId = d, viewed = False, createdAt = now s1\<rparr> s1")
        case (Inl e)
        with g valid Inr lim show ?thesis by (simp add: create_note_def)
      next
        case cr: (Inr s2)
        obtain r3 s3 where
          up: "usage_update (throws fs 4) (uid u) (\<lambda>v. v\<lparr>count := count v + 1\<rparr>) s2 = (r3, s3)"
          by (cases "usage_update (throws fs 4) (uid u) (\<lambda>v. v\<lparr>count := count v + 1\<rparr>) s2")
        have "snd (create_note fs rc newUid newId c d s) = s3"
          using g valid Inr lim cr up by (cases r3) (auto simp: create_note_def)
        with cr up
        have "note_create (throws fs 3)
                 \<lparr>nid = newId, content = c, ndeviceId = d, viewed = False, createdAt = now s1\<rparr> s1
                   = Inr s2
              \<and> snd (create_note fs rc newUid newId c d s)
                   = snd (usage_update (throws fs 4) (uid u) (\<lambda>v. v\<lparr>count := count v + 1\<rparr>) s2)"
          by simp
        then show ?thesis by blast
      qed
    qed
  qed
qed

lemma create_note_effect:
  "(noteRows (snd (create_note fs rc newUid newId c d s)) = noteRows s
    \<or> (lookup s newId = None
        \<and> (\<exists>n. nid n = newId \<and> \<not> viewed n
               \<and> noteRows (snd (create_note fs rc newUid newId c d s)) = noteRows s @ [n])))
   \<and> timers (snd (create_note fs rc newUid newId c d s)) = timers s
   \<and> now (snd (create_note fs rc newUid newId c d s)) = now s"
proof -
  obtain r s1 where g: "getOrCreateUsage fs rc newUid d True s = (r, s1)"
    by (cases "getOrCreateUsage fs rc newUid d True s")
  with getOrCreateUsage_frame [of fs rc newUid d True s]
  have s1: "noteRows s1 = noteRows s" "timers s1 = timers s" "now s1 = now s" by simp_all
  then have l1: "lookup s1 newId = lookup s newId" by (simp add: lookup_def)
  let ?w = "snd (create_note fs rc newUid newId c d s)"
  let ?n = "\<lparr>nid = newId, content = c, ndeviceId = d, viewed = False, createdAt = now s1\<rparr>"
  from create_note_world [OF g, of newId c]
  show ?thesis
  proof (elim disjE exE conjE)
    assume "?w = s"
    then show ?thesis by simp
  next
    assume "?w = s1"
    with s1 show ?thesis by simp
  next
    fix s2 and u :: NoteUsage
    assume cr: "note_create (throws fs 3) ?n s1 = Inr s2"
      and w: "?w = snd (usage_update (throws fs 4) (uid u) (\<lambda>v. v\<lparr>count := count v + 1\<rparr>) s2)"
    from note_create_effect [OF cr] s1 l1
    have s2: "lookup s newId = None" "noteRows s2 = noteRows s @ [?n]"
      "timers s2 = timers s" "now s2 = now s"
      by simp_all
    from w s2 usage_update_frame [of "throws fs 4" "uid u" "\<lambda>v. v\<lparr>count := count v + 1\<rparr>" s2]
    have w': "noteRows ?w = noteRows s @ [?n]" "timers ?w = timers s" "now ?w = now s"
      by simp_all
    have "nid ?n = newId \<and> \<not> viewed ?n \<and> noteRows ?w = noteRows s @ [?n]"
      using w'(1) by simp
    then have "\<exists>n. nid n = newId \<and> \<not> viewed n \<and> noteRows ?w = noteRows s @ [n]" ..
    with s2(1) w'(2,3) show ?thesis by simp
  qed
qed

subsection \<open>Scrub and clock\<close>

lemma scrub_lookup:
  "lookup (scrub b j s) i
     = (if j = i \<and> \<not> b then map_option (\<lambda>n. n\<lparr>content := SENTINEL\<rparr>) (lookup s i)
        else lookup s i)"
  by (cases "lookup s j") (auto simp: scrub_def note_update_def lookup_update_rows)

lemma scrub_frame:
  "timers (scrub b j s) = timers s \<and> now (scrub b j s) = now s
   \<and> map nid (noteRows (scrub b j s)) = map nid (noteRows s)"
  by (simp add: scrub_def note_update_def comp_def)

lemma run_scrubs_frame:
  "timers (run_scrubs fs js s) = timers s \<and> now (run_scrubs fs js s) = now s
   \<and> map nid (noteRows (run_scrubs fs js s)) = map nid (noteRows s)"
  by (induction js arbitrary: fs s) (simp_all add: scrub_frame)

lemma run_scrubs_other:
  "i \<notin> set js \<Longrightarrow> lookup (run_scrubs fs js s) i = lookup s i"
  by (induction js arbitrary: fs s) (auto simp: scrub_lookup)

lemma run_scrubs_some:
  "lookup s i = Some n \<Longrightarrow>
     lookup (run_scrubs fs js s) i = Some n
   \<or> lookup (run_scrubs fs js s) i = Some (n\<lparr>content := SENTINEL\<rparr>)"
proof (induction js arbitrary: fs s n)
  case Nil
  then show ?case by simp
next
  case (Cons j js)
  from Cons.prems
  have "lookup (scrub (throws fs 0) j s) i = Some n
      \<or> lookup (scrub (throws fs 0) j s) i = Some (n\<lparr>content := SENTINEL\<rparr>)"
    by (simp add: scrub_lookup)
  then consider "lookup (scrub (throws fs 0) j s) i = Some n"
    | "lookup (scrub (throws fs 0) j s) i = Some (n\<lparr>content := SENTINEL\<rparr>)"
    by blast
  then show ?case
  proof cases
    case 1
    from Cons.IH [OF 1, of "tl fs"] show ?thesis by simp
  next
    case 2
    from Cons.IH [OF 2, of "tl fs"] show ?thesis by simp
  qed
qed

lemma storage_ok_tl: "storage_ok fs \<Longrightarrow> storage_ok (tl fs)"
  by (cases fs) (simp_all add: storage_ok_def)

lemma run_scrubs_hit:
  "storage_ok fs \<Longrightarrow> i \<in> set js \<Longrightarrow> lookup s i = Some n \<Longrightarrow>
     lookup (run_scrubs fs js s) i = Some (n\<lparr>content := SENTINEL\<rparr>)"
proof (induction js arbitrary: fs s n)
  case Nil
  then show ?case by simp
next
  case (Cons j js)
  note ok = storage_ok_throws [OF Cons.prems(1), of 0]
  show ?case
  proof (cases "j = i")
    case True
    with ok Cons.prems(3)
    have l: "lookup (scrub (throws fs 0) j s) i = Some (n\<lparr>content := SENTINEL\<rparr>)"
      by (simp add: scrub_lookup)
    from run_scrubs_some [OF l, of "tl fs" js] show ?thesis by simp
  next
    case False
    with Cons.prems(3) have l: "lookup (scrub (throws fs 0) j s) i = Some n"
      by (simp add: scrub_lookup)
    from False Cons.prems(2) have "i \<in> set js" by auto
    from Cons.IH [OF storage_ok_tl [OF Cons.prems(1)] this l] show ?thesis by simp
  qed
qed

lemma advance_frame:
  "set (timers (advance fs t s)) \<subseteq> set (timers s)
   \<and> map nid (noteRows (advance fs t s)) = map nid (noteRows s)
   \<and> now s \<le> now (advance fs t s)"
  by (auto simp: advance_def run_scrubs_frame)

lemma advance_some:
  assumes "lookup s i = Some n"
  shows "lookup (advance fs t s) i = Some n
       \<or> lookup (advance fs t s) i = Some (n\<lparr>content := SENTINEL\<rparr>)"
proof (cases "t < now s")
  case True
  with assms show ?thesis by (simp add: advance_def)
next
  case False
  let ?s = "s\<lparr>timers := filter (\<lambda>(d, i). \<not> d \<le> t) (timers s), now := t\<rparr>"
  have "lookup ?s i = Some n" using assms by (simp add: lookup_def)
  from run_scrubs_some [OF this] False show ?thesis by (simp add: advance_def)
qed

subsection \<open>Reveal, sweep: effects\<close>

lemma web_reveal_timers:
  "timers (snd (web_reveal fs j s))
     = (if status (fst (web_reveal fs j s)) = 200
        then timers s @ [(now s + GRACE_DELAY_MS, j)] else timers s)"
  by (simp add: web_reveal_def web_reveal_resume_def note_findUnique_def note_update_def
      json_def setTimeout_scrub_def split: option.splits)

lemma web_reveal_frame:
  "map nid (noteRows (snd (web_reveal fs j s))) = map nid (noteRows s)
   \<and> now (snd (web_reveal fs j s)) = now s"
  by (simp add: web_reveal_def web_reveal_resume_def note_findUnique_def note_update_def
      json_def setTimeout_scrub_def comp_def split: option.splits)

lemma cleanup_rows:
  "(noteRows (snd (cleanupExpiredNotes tz fs s)) = noteRows s
    \<or> noteRows (snd (cleanupExpiredNotes tz fs s)) = filter (\<lambda>n. \<not> expired tz (now s) n) (noteRows s))
   \<and> timers (snd (cleanupExpiredNotes tz fs s)) = timers s
   \<and> now (snd (cleanupExpiredNotes tz fs s)) = now s"
  by (simp add: cleanupExpiredNotes_def note_deleteMany_def)

lemma cleanup_viewed:
  assumes "lookup s i = Some n" and "viewed n"
  shows "lookup (snd (cleanupExpiredNotes tz fs s)) i = Some n"
proof -
  from assms have "find (\<lambda>n. nid n = i) (filter (\<lambda>n. \<not> expired tz (now s) n) (noteRows s)) = Some n"
    by (intro find_filter_keep) (simp_all add: lookup_def expired_def)
  with assms(1) cleanup_rows [of tz fs s] show ?thesis
    unfolding lookup_def by metis
qed

lemma cleanup_unread:
  assumes "primary_key s" and "lookup s i = Some n"
  shows "lookup (snd (cleanupExpiredNotes tz fs s)) i = Some n
       \<or> lookup (snd (cleanupExpiredNotes tz fs s)) i = None"
proof -
  from assms
  have "find (\<lambda>n. nid n = i) (filter (\<lambda>n. \<not> expired tz (now s) n) (noteRows s)) = Some n
      \<or> find (\<lambda>n. nid n = i) (filter (\<lambda>n. \<not> expired tz (now s) n) (noteRows s)) = None"
    by (simp add: find_filter_distinct primary_key_def lookup_def)
  with assms(2) cleanup_rows [of tz fs s] show ?thesis
    unfolding lookup_def by metis
qed

lemma create_note_some:
  assumes "lookup s i = Some n"
  shows "lookup (snd (create_note fs rc newUid newId c d s)) i = Some n"
proof -
  from create_note_effect [of fs rc newUid newId c d s]
  have "noteRows (snd (create_note fs rc newUid newId c d s)) = noteRows s
      \<or> (\<exists>m. noteRows (snd (create_note fs rc newUid newId c d s)) = noteRows s @ [m])"
    by blast
  then show ?thesis
    using assms by (auto simp: lookup_def find_app)
qed

subsection \<open>One step\<close>

lemma step_viewed:
  assumes "lookup s i = Some n" and "viewed n"
  shows "lookup (step e s) i = Some n \<or> lookup (step e s) i = Some (n\<lparr>content := SENTINEL\<rparr>)"
proof (cases e)
  case (ApiGetNote fs j)
  from assms web_reveal_200 [of fs j s] have "\<not> (j = i \<and> status (fst (web_reveal fs j s)) = 200)"
    by auto
  with assms ApiGetNote show ?thesis
    by (simp add: api_get_note_world web_reveal_lookup)
next
  case (WebGetNote fs j)
  with assms show ?thesis by (simp add: web_get_note_world)
next
  case (WebReveal fs j)
  from assms web_reveal_200 [of fs j s] have "\<not> (j = i \<and> status (fst (web_reveal fs j s)) = 200)"
    by auto
  with assms WebReveal show ?thesis
    by (simp add: web_reveal_lookup)
next
  case (Cleanup tz fs)
  with cleanup_viewed [OF assms] show ?thesis by simp
next
  case (ClockAdvance fs t)
  with advance_some [OF assms(1)] show ?thesis by simp
next
  case (ApiCreateNote fs rc newUid newId c d)
  with create_note_some [OF assms(1)] show ?thesis by simp
next
  case (ApiGetUsage fs rc newUid d)
  with assms(1) get_usage_frame [of fs rc newUid d s] show ?thesis
    by (simp add: lookup_def)
qed

lemma step_spent: "spent i s \<Longrightarrow> spent i (step e s)"
proof -
  assume "spent i s"
  then obtain n where n: "lookup s i = Some n" "viewed n"
    by (auto simp: spent_def split: option.splits)
  from step_viewed [OF n, of e] n(2) show ?thesis
    by (auto simp: spent_def)
qed

lemma final_spent: "spent i s \<Longrightarrow> spent i (final es s)"
  by (induction es arbitrary: s) (simp_all add: step_spent)

lemma step_primary_key: "primary_key s \<Longrightarrow> primary_key (step e s)"
proof (cases e)
  case (ApiGetNote fs j)
  assume "primary_key s"
  with ApiGetNote web_reveal_frame [of fs j s] show ?thesis
    by (simp add: primary_key_def api_get_note_world)
next
  case (WebGetNote fs j)
  assume "primary_key s"
  with WebGetNote show ?thesis by (simp add: web_get_note_world)
next
  case (WebReveal fs j)
  assume "primary_key s"
  with WebReveal web_reveal_frame [of fs j s] show ?thesis
    by (simp add: primary_key_def)
next
  case (Cleanup tz fs)
  assume "primary_key s"
  with Cleanup cleanup_rows [of tz fs s] show ?thesis
    by (auto simp: primary_key_def distinct_map_filter)
next
  case (ClockAdvance fs t)
  assume "primary_key s"
  with ClockAdvance advance_frame [of fs t s] show ?thesis
    by (simp add: primary_key_def)
next
  case (ApiCreateNote fs rc newUid newId c d)
  assume pk: "primary_key s"
  have "lookup s newId = None \<Longrightarrow> newId \<notin> nid ` set (noteRows s)"
    by (auto simp: lookup_def find_None_iff)
  with pk ApiCreateNote create_note_effect [of fs rc newUid newId c d s] show ?thesis
    by (auto simp: primary_key_def)
next
  case (ApiGetUsage fs rc newUid d)
  assume "primary_key s"
  with ApiGetUsage get_usage_frame [of fs rc newUid d s] show ?thesis
    by (simp add: primary_key_def)
qed

lemma step_timers:
  assumes "(d, j) \<in> set (timers (step e s))"
  shows "(d, j) \<in> set (timers s) \<or> spent j (step e s)"
proof (cases e)
  case (ApiGetNote fs k)
  show ?thesis
  proof (cases "status (fst (web_reveal fs k s)) = 200")
    case True
    from web_reveal_200 [OF True] obtain n where "lookup s k = Some n" by blast
    with True have "spent k (snd (web_reveal fs k s))"
      by (simp add: spent_def web_reveal_lookup)
    with assms ApiGetNote True show ?thesis
      by (auto simp: api_get_note_world web_reveal_timers)
  next
    case False
    with assms ApiGetNote show ?thesis
      by (simp add: api_get_note_world web_reveal_timers)
  qed
next
  case (WebGetNote fs k)
  with assms show ?thesis by (simp add: web_get_note_world)
next
  case (WebReveal fs k)
  show ?thesis
  proof (cases "status (fst (web_reveal fs k s)) = 200")
    case True
    from web_reveal_200 [OF True] obtain n where "lookup s k = Some n" by blast
    with True have "spent k (snd (web_reveal fs k s))"
      by (simp add: spent_def web_reveal_lookup)
    with assms WebReveal True show ?thesis
      by (auto simp: web_reveal_timers)
  next
    case False
    with assms WebReveal show ?thesis
      by (simp add: web_reveal_timers)
  qed
next
  case (Cleanup tz fs)
  with assms cleanup_rows [of tz fs s] show ?thesis by simp
next
  case (ClockAdvance fs t)
  with assms advance_frame [of fs t s] show ?thesis by auto
next
  case (ApiCreateNote fs rc newUid newId c d')
  with assms create_note_effect [of fs rc newUid newId c d' s] show ?thesis by simp
next
  case (ApiGetUsage fs rc newUid d')
  with assms get_usage_frame [of fs rc newUid d' s] show ?thesis by simp
qed

lemma step_timers_spent: "timers_spent s \<Longrightarrow> timers_spent (step e s)"
  unfolding timers_spent_def list_all_iff
  using step_timers [of _ _ e s] step_spent [of _ s e] by fastforce

lemma final_timers_spent: "timers_spent s \<Longrightarrow> timers_spent (final es s)"
  by (induction es arbitrary: s) (simp_all add: step_timers_spent)

lemma final_primary_key: "primary_key s \<Longrightarrow> primary_key (final es s)"
  by (induction es arbitrary: s) (simp_all add: step_primary_key)

lemma final_viewed:
  assumes "lookup s i = Some n" and "viewed n"
  shows "lookup (final es s) i = Some n \<or> lookup (final es s) i = Some (n\<lparr>content := SENTINEL\<rparr>)"
  using assms
proof (induction es arbitrary: s n)
  case Nil
  then show ?case by simp
next
  case (Cons e es)
  from step_viewed [OF Cons.prems, of e]
  show ?case
  proof
    assume l: "lookup (step e s) i = Some n"
    from Cons.IH [OF l Cons.prems(2)] show ?thesis by simp
  next
    assume l: "lookup (step e s) i = Some (n\<lparr>content := SENTINEL\<rparr>)"
    from Cons.IH [OF l] Cons.prems(2) show ?thesis by simp
  qed
qed

lemma unread_no_timer:
  assumes "timers_spent s" and "lookup s i = Some n" and "\<not> viewed n"
  shows "i \<notin> snd ` set (timers s)"
  using assms by (auto simp: timers_spent_def list_all_iff spent_def)

lemma step_unread:
  assumes pk: "primary_key s" and ts: "timers_spent s"
    and l: "lookup s i = Some n" and nv: "\<not> viewed n"
  shows "lookup (step e s) i = None \<or> lookup (step e s) i = Some n
       \<or> lookup (step e s) i = Some (n\<lparr>viewed := True\<rparr>)"
proof (cases e)
  case (ApiGetNote fs j)
  with l show ?thesis by (simp add: api_get_note_world web_reveal_lookup)
next
  case (WebGetNote fs j)
  with l show ?thesis by (simp add: web_get_note_world)
next
  case (WebReveal fs j)
  with l show ?thesis by (simp add: web_reveal_lookup)
next
  case (Cleanup tz fs)
  with cleanup_unread [OF pk l, of tz fs] show ?thesis by auto
next
  case (ClockAdvance fs t)
  have "lookup (advance fs t s) i = Some n"
  proof (cases "t < now s")
    case True
    with l show ?thesis by (simp add: advance_def)
  next
    case False
    let ?s = "s\<lparr>timers := filter (\<lambda>(d, i). \<not> d \<le> t) (timers s), now := t\<rparr>"
    from unread_no_timer [OF ts l nv]
    have "i \<notin> set (map snd (filter (\<lambda>(d, i). d \<le> t) (timers s)))" by auto
    from run_scrubs_other [OF this, of fs ?s] l False show ?thesis
      by (simp add: advance_def lookup_def)
  qed
  with ClockAdvance show ?thesis by simp
next
  case (ApiCreateNote fs rc newUid newId c d)
  with create_note_some [OF l] show ?thesis by simp
next
  case (ApiGetUsage fs rc newUid d)
  with l get_usage_frame [of fs rc newUid d s] show ?thesis
    by (simp add: lookup_def)
qed

section \<open>The expiry sweep deletes the expired unread notes\<close>

lemma expired_eq:
  "expired tz t = (\<lambda>n. viewed n = False \<and> createdAt n < expiryDate tz t)"
  by (simp add: fun_eq_iff expired_def)

lemma expiryDate_eq:
  "expiryDate tz t
     = t + offsetAtUTC tz t - 30 * 86400000
       - offsetAtLocal tz (t + offsetAtUTC tz t - 30 * 86400000)"
  by (simp add: expiryDate_def UTC_def LocalTime_def DAYS_UNTIL_EXPIRY_def msPerDay_def)

lemma expiryDate_utc: "expiryDate utc t = t - 30 * 86400000"
  by (simp add: expiryDate_eq utc_def)

lemma expiryDate_new_york: "expiryDate new_york_2026 1774022400000 = 1771434000000"
  by (simp add: expiryDate_eq new_york_2026_def)

text \<open>
  C8. A pass of the sweep whose delete succeeds removes exactly the rows that are
  unread and were created before the cut-off, and reports how many: every such row is
  gone, every viewed row stays whatever its age, every unread row created at the
  cut-off or later stays; in terms of lookups, a viewed note is found as before, and
  (ids being unique) an unread note is found as before or, when expired, no longer.
  Usage rows, timers and clock are untouched. The cut-off is the instant thirty days
  before the pass on the server's local calendar: the same local time of day, thirty
  local days earlier. Where local time has the same offset from UTC at both instants
  (always so in UTC), that is 30 * 86400000 ms before the pass.
\<close>

theorem sweep_deletes_exactly_expired:
  "(\<not> throws fs 0 \<longrightarrow>
      set (noteRows (snd (cleanupExpiredNotes tz fs s)))
        = {n \<in> set (noteRows s). \<not> (viewed n = False \<and> createdAt n < expiryDate tz (now s))}
    \<and> fst (cleanupExpiredNotes tz fs s)
        = length (filter (\<lambda>n. viewed n = False \<and> createdAt n < expiryDate tz (now s)) (noteRows s))
    \<and> (\<forall>n \<in> set (noteRows s). viewed n \<longrightarrow>
          n \<in> set (noteRows (snd (cleanupExpiredNotes tz fs s))))
    \<and> (\<forall>n \<in> set (noteRows s). \<not> viewed n \<and> expiryDate tz (now s) \<le> createdAt n \<longrightarrow>
          n \<in> set (noteRows (snd (cleanupExpiredNotes tz fs s))))
    \<and> (\<forall>n \<in> set (noteRows s). \<not> viewed n \<and> createdAt n < expiryDate tz (now s) \<longrightarrow>
          n \<notin> set (noteRows (snd (cleanupExpiredNotes tz fs s))))
    \<and> (\<forall>i n. lookup s i = Some n \<and> viewed n \<longrightarrow>
          lookup (snd (cleanupExpiredNotes tz fs s)) i = Some n)
    \<and> (\<forall>i n. primary_key s \<and> lookup s i = Some n \<and> \<not> viewed n \<longrightarrow>
          lookup (snd (cleanupExpiredNotes tz fs s)) i
            = (if createdAt n < expiryDate tz (now s) then None else Some n)))
   \<and> noteUsages (snd (cleanupExpiredNotes tz fs s)) = noteUsages s
   \<and> timers (snd (cleanupExpiredNotes tz fs s)) = timers s
   \<and> now (snd (cleanupExpiredNotes tz fs s)) = now s
   \<and> expiryDate tz (now s)
        = now s + offsetAtUTC tz (now s) - 30 * 86400000
          - offsetAtLocal tz (now s + offsetAtUTC tz (now s) - 30 * 86400000)
   \<and> (offsetAtLocal tz (now s + offsetAtUTC tz (now s) - 30 * 86400000) = offsetAtUTC tz (now s)
        \<longrightarrow> expiryDate tz (now s) = now s - 30 * 86400000)"
proof -
  have frame: "noteUsages (snd (cleanupExpiredNotes tz fs s)) = noteUsages s
     \<and> timers (snd (cleanupExpiredNotes tz fs s)) = timers s
     \<and> now (snd (cleanupExpiredNotes tz fs s)) = now s"
    by (simp add: cleanupExpiredNotes_def note_deleteMany_def)
  have rows: "noteRows (snd (cleanupExpiredNotes tz fs s))
                = filter (\<lambda>n. \<not> (viewed n = False \<and> createdAt n < expiryDate tz (now s)))
                    (noteRows s)"
    and cnt: "fst (cleanupExpiredNotes tz fs s)
        = length (filter (\<lambda>n. viewed n = False \<and> createdAt n < expiryDate tz (now s)) (noteRows s))"
    if "\<not> throws fs 0"
    using that
    by (simp_all add: cleanupExpiredNotes_def note_deleteMany_def expired_eq)
  have kept: "lookup (snd (cleanupExpiredNotes tz fs s)) i = Some n"
    if "\<not> throws fs 0" "lookup s i = Some n" "viewed n" for i n
    using that rows find_filter_keep [of "\<lambda>n. nid n = i" "noteRows s" n]
    by (simp add: lookup_def)
  have gone: "lookup (snd (cleanupExpiredNotes tz fs s)) i
            = (if createdAt n < expiryDate tz (now s) then None else Some n)"
    if "\<not> throws fs 0" "primary_key s" "lookup s i = Some n" "\<not> viewed n" for i n
    using that rows find_filter_distinct [of "noteRows s" i]
    by (simp add: lookup_def primary_key_def)
  have cut: "expiryDate tz (now s)
        = now s + offsetAtUTC tz (now s) - 30 * 86400000
          - offsetAtLocal tz (now s + offsetAtUTC tz (now s) - 30 * 86400000)"
    by (rule expiryDate_eq)
  have fixed: "expiryDate tz (now s) = now s - 30 * 86400000"
    if "offsetAtLocal tz (now s + offsetAtUTC tz (now s) - 30 * 86400000) = offsetAtUTC tz (now s)"
    using that by (simp add: expiryDate_eq)
  have sweep: "\<not> throws fs 0 \<longrightarrow>
      set (noteRows (snd (cleanupExpiredNotes tz fs s)))
        = {n \<in> set (noteRows s). \<not> (viewed n = False \<and> createdAt n < expiryDate tz (now s))}
    \<and> fst (cleanupExpiredNotes tz fs s)
        = length (filter (\<lambda>n. viewed n = False \<and> createdAt n < expiryDate tz (now s)) (noteRows s))
    \<and> (\<forall>n \<in> set (noteRows s). viewed n \<longrightarrow>
          n \<in> set (noteRows (snd (cleanupExpiredNotes tz fs s))))
    \<and> (\<forall>n \<in> set (noteRows s). \<not> viewed n \<and> expiryDate tz (now s) \<le> createdAt n \<longrightarrow>
          n \<in> set (noteRows (snd (cleanupExpiredNotes tz fs s))))
    \<and> (\<forall>n \<in> set (noteRows s). \<not> viewed n \<and> createdAt n < expiryDate tz (now s) \<longrightarrow>
          n \<notin> set (noteRows (snd (cleanupExpiredNotes tz fs s))))
    \<and> (\<forall>i n. lookup s i = Some n \<and> viewed n \<longrightarrow>
          lookup (snd (cleanupExpiredNotes tz fs s)) i = Some n)
    \<and> (\<forall>i n. primary_key s \<and> lookup s i = Some n \<and> \<not> viewed n \<longrightarrow>
          lookup (snd (cleanupExpiredNotes tz fs s)) i
            = (if createdAt n < expiryDate tz (now s) then None else Some n))"
    using rows cnt kept gone by auto
  from sweep frame cut fixed show ?thesis by blast
qed

theorem sweep_deletes_exactly_expired_witness:
  "\<not> throws [] 0
   \<and> offsetAtLocal utc (now sweep_world + offsetAtUTC utc (now sweep_world) - 30 * 86400000)
       = offsetAtUTC utc (now sweep_world)
   \<and> expiryDate utc (now sweep_world) = now sweep_world - 30 * 86400000
   \<and> old_unread \<in> set (noteRows sweep_world) \<and> \<not> viewed old_unread
   \<and> createdAt old_unread < expiryDate utc (now sweep_world)
   \<and> old_unread \<notin> set (noteRows (snd (cleanupExpiredNotes utc [] sweep_world)))
   \<and> old_viewed \<in> set (noteRows sweep_world) \<and> viewed old_viewed
   \<and> old_viewed \<in> set (noteRows (snd (cleanupExpiredNotes utc [] sweep_world)))
   \<and> young_unread \<in> set (noteRows sweep_world) \<and> \<not> viewed young_unread
   \<and> expiryDate utc (now sweep_world) \<le> createdAt young_unread
   \<and> young_unread \<in> set (noteRows (snd (cleanupExpiredNotes utc [] sweep_world)))
   \<and> fst (cleanupExpiredNotes utc [] sweep_world) = 1
   \<and> primary_key sweep_world
   \<and> lookup sweep_world ''A'' = Some old_unread
   \<and> lookup (snd (cleanupExpiredNotes utc [] sweep_world)) ''A'' = None
   \<and> lookup sweep_world ''B'' = Some old_viewed
   \<and> lookup (snd (cleanupExpiredNotes utc [] sweep_world)) ''B'' = Some old_viewed
   \<and> expiryDate new_york_2026 (now dst_world) = 1771434000000
   \<and> dst_note \<in> set (noteRows dst_world) \<and> \<not> viewed dst_note
   \<and> createdAt dst_note < expiryDate new_york_2026 (now dst_world)
   \<and> dst_note \<notin> set (noteRows (snd (cleanupExpiredNotes new_york_2026 [] dst_world)))
   \<and> expiryDate utc (now dst_world) \<le> createdAt dst_note
   \<and> dst_note \<in> set (noteRows (snd (cleanupExpiredNotes utc [] dst_world)))"
proof -
  have nt: "\<not> throws [] 0" by (simp add: throws_def)
  have rows: "noteRows sweep_world = [old_unread, old_viewed, young_unread]"
    and clock: "now sweep_world = 2678400000"
    by (simp_all add: sweep_world_def)
  have a: "\<not> viewed old_unread" "createdAt old_unread = 0" "nid old_unread = ''A''"
    by (simp_all add: old_unread_def)
  have b: "viewed old_viewed" "nid old_viewed = ''B''"
    by (simp_all add: old_viewed_def)
  have c: "\<not> viewed young_unread" "createdAt young_unread = 86400000" "nid young_unread = ''C''"
    by (simp_all add: young_unread_def)
  have d: "\<not> viewed dst_note" "createdAt dst_note = 1771432200000"
    by (simp_all add: dst_note_def)
  have drows: "noteRows dst_world = [dst_note]" and dclock: "now dst_world = 1774022400000"
    by (simp_all add: dst_world_def)
  have pk: "primary_key sweep_world"
    by (simp add: primary_key_def rows a b c)
  have la: "lookup sweep_world ''A'' = Some old_unread"
    and lb: "lookup sweep_world ''B'' = Some old_viewed"
    by (simp_all add: lookup_def rows a b c)
  have off: "offsetAtLocal utc (now sweep_world + offsetAtUTC utc (now sweep_world) - 30 * 86400000)
       = offsetAtUTC utc (now sweep_world)"
    by (simp add: utc_def)
  note t = sweep_deletes_exactly_expired [of "[]" utc sweep_world]
  note u = sweep_deletes_exactly_expired [of "[]" new_york_2026 dst_world]
  note v = sweep_deletes_exactly_expired [of "[]" utc dst_world]
  from t off have cut: "expiryDate utc (now sweep_world) = now sweep_world - 30 * 86400000"
    by blast
  then have cut': "expiryDate utc 2678400000 = 86400000" by (simp add: clock)
  from t nt have del: "\<forall>n \<in> set (noteRows sweep_world).
      \<not> viewed n \<and> createdAt n < expiryDate utc (now sweep_world) \<longrightarrow>
        n \<notin> set (noteRows (snd (cleanupExpiredNotes utc [] sweep_world)))"
    and keepv: "\<forall>n \<in> set (noteRows sweep_world). viewed n \<longrightarrow>
        n \<in> set (noteRows (snd (cleanupExpiredNotes utc [] sweep_world)))"
    and keepy: "\<forall>n \<in> set (noteRows sweep_world).
      \<not> viewed n \<and> expiryDate utc (now sweep_world) \<le> createdAt n \<longrightarrow>
        n \<in> set (noteRows (snd (cleanupExpiredNotes utc [] sweep_world)))"
    and cnt: "fst (cleanupExpiredNotes utc [] sweep_world)
        = length (filter (\<lambda>n. viewed n = False \<and> createdAt n < expiryDate utc (now sweep_world))
                    (noteRows sweep_world))"
    and lv: "\<forall>i n. lookup sweep_world i = Some n \<and> viewed n \<longrightarrow>
          lookup (snd (cleanupExpiredNotes utc [] sweep_world)) i = Some n"
    and lu: "\<forall>i n. primary_key sweep_world \<and> lookup sweep_world i = Some n \<and> \<not> viewed n \<longrightarrow>
          lookup (snd (cleanupExpiredNotes utc [] sweep_world)) i
            = (if createdAt n < expiryDate utc (now sweep_world) then None else Some n)"
    by blast+
  from u nt have ddel: "\<forall>n \<in> set (noteRows dst_world).
      \<not> viewed n \<and> createdAt n < expiryDate new_york_2026 (now dst_world) \<longrightarrow>
        n \<notin> set (noteRows (snd (cleanupExpiredNotes new_york_2026 [] dst_world)))"
    by blast
  from v nt have dkeep: "\<forall>n \<in> set (noteRows dst_world).
      \<not> viewed n \<and> expiryDate utc (now dst_world) \<le> createdAt n \<longrightarrow>
        n \<in> set (noteRows (snd (cleanupExpiredNotes utc [] dst_world)))"
    by blast
  have ina: "old_unread \<in> set (noteRows sweep_world)"
    and inb: "old_viewed \<in> set (noteRows sweep_world)"
    and inc: "young_unread \<in> set (noteRows sweep_world)"
    by (simp_all add: rows)
  have ind: "dst_note \<in> set (noteRows dst_world)" by (simp add: drows)
  have olda: "createdAt old_unread < expiryDate utc (now sweep_world)"
    and youngc: "expiryDate utc (now sweep_world) \<le> createdAt young_unread"
    by (simp_all add: clock cut' a c)
  have ny: "expiryDate new_york_2026 (now dst_world) = 1771434000000"
    by (simp add: dclock expiryDate_new_york)
  have oldd: "createdAt dst_note < expiryDate new_york_2026 (now dst_world)"
    by (simp add: ny d)
  have youngd: "expiryDate utc (now dst_world) \<le> createdAt dst_note"
    by (simp add: expiryDate_utc dclock d)
  from del ina a(1) olda
  have r1: "old_unread \<notin> set (noteRows (snd (cleanupExpiredNotes utc [] sweep_world)))" by blast
  from keepv inb b(1)
  have r2: "old_viewed \<in> set (noteRows (snd (cleanupExpiredNotes utc [] sweep_world)))" by blast
  from keepy inc c(1) youngc
  have r3: "young_unread \<in> set (noteRows (snd (cleanupExpiredNotes utc [] sweep_world)))" by blast
  from cnt have r4: "fst (cleanupExpiredNotes utc [] sweep_world) = 1"
    by (simp add: rows clock cut' a b c)
  from lu pk la a(1) olda
  have r5: "lookup (snd (cleanupExpiredNotes utc [] sweep_world)) ''A'' = None" by simp
  from lv lb b(1)
  have r6: "lookup (snd (cleanupExpiredNotes utc [] sweep_world)) ''B'' = Some old_viewed" by blast
  from ddel ind d(1) oldd
  have r7: "dst_note \<notin> set (noteRows (snd (cleanupExpiredNotes new_york_2026 [] dst_world)))"
    by blast
  from dkeep ind d(1) youngd
  have r8: "dst_note \<in> set (noteRows (snd (cleanupExpiredNotes utc [] dst_world)))" by blast
  from nt off cut ina a(1) olda r1 inb b(1) r2 inc c(1) youngc r3 r4 pk la r5 lb r6
    ny ind d(1) oldd r7 youngd r8
  show ?thesis by blast
qed

section \<open>At most one reveal\<close>

lemma storage_ok_append: "storage_ok (xs @ ys) = (storage_ok xs \<and> storage_ok ys)"
  by (auto simp: storage_ok_def)

lemma reveals_ok_Cons:
  "reveals_ok i (e # es) = (storage_ok (reveal_faults i e) \<and> reveals_ok i es)"
  by (simp add: reveals_ok_def storage_ok_append)

lemma web_reveal_spent_status:
  assumes "spent i s"
  shows "status (fst (web_reveal fs i s)) = 410 \<or> status (fst (web_reveal fs i s)) = 500"
  using assms
  by (auto simp: spent_def web_reveal_def web_reveal_resume_def note_findUnique_def json_def
      split: option.splits)

lemma reveal_status_spent:
  assumes "spent i s"
  shows "\<forall>st \<in> set (reveal_status i e s).
           (st = 410 \<or> st = 500) \<and> (storage_ok (reveal_faults i e) \<longrightarrow> st = 410)"
proof (cases e)
  case (ApiGetNote fs j)
  from assms have "reveal_class (lookup s i) = 410"
    by (auto simp: spent_def reveal_class_def split: option.splits)
  with ApiGetNote web_reveal_spent_status [OF assms, of fs] show ?thesis
    by (auto simp: api_get_note_status web_reveal_status_ok)
next
  case (WebReveal fs j)
  from assms have "reveal_class (lookup s i) = 410"
    by (auto simp: spent_def reveal_class_def split: option.splits)
  with WebReveal web_reveal_spent_status [OF assms, of fs] show ?thesis
    by (auto simp: web_reveal_status_ok)
qed simp_all

lemma reveal_statuses_spent:
  assumes "spent i s"
  shows "\<forall>st \<in> set (reveal_statuses i es s).
           (st = 410 \<or> st = 500) \<and> (reveals_ok i es \<longrightarrow> st = 410)"
  using assms
proof (induction es arbitrary: s)
  case Nil
  then show ?case by simp
next
  case (Cons e es)
  from Cons.IH [OF step_spent [OF Cons.prems, of e]] reveal_status_spent [OF Cons.prems, of e]
  show ?case by (auto simp: reveals_ok_Cons)
qed

lemma reveal_status_200:
  assumes "200 \<in> set (reveal_status i e s)"
  shows "spent i (step e s)"
proof -
  have w: "spent i (snd (web_reveal fs i s))" if "status (fst (web_reveal fs i s)) = 200" for fs
  proof -
    from web_reveal_200 [OF that] obtain n where "lookup s i = Some n" by blast
    with that show ?thesis by (simp add: spent_def web_reveal_lookup)
  qed
  show ?thesis
  proof (cases e)
    case (ApiGetNote fs j)
    with assms w [of fs] show ?thesis
      by (auto simp: api_get_note_world api_get_note_status split: if_splits)
  next
    case (WebReveal fs j)
    with assms w [of fs] show ?thesis by (auto split: if_splits)
  qed (use assms in simp_all)
qed

lemma reveal_status_short: "reveal_status i e s = [] \<or> (\<exists>st. reveal_status i e s = [st])"
  by (cases e) simp_all

lemma after_success:
  "reveal_statuses i es s = pre @ 200 # post \<Longrightarrow>
     (\<forall>st \<in> set post. (st = 410 \<or> st = 500) \<and> (reveals_ok i es \<longrightarrow> st = 410))"
proof (induction es arbitrary: s pre)
  case Nil
  then show ?case by simp
next
  case (Cons e es)
  from reveal_status_short [of i e s]
  show ?case
  proof
    assume "reveal_status i e s = []"
    with Cons.prems have "reveal_statuses i es (step e s) = pre @ 200 # post" by simp
    from Cons.IH [OF this] show ?thesis by (simp add: reveals_ok_Cons)
  next
    assume "\<exists>st. reveal_status i e s = [st]"
    then obtain st where st: "reveal_status i e s = [st]" ..
    with Cons.prems have eq: "st # reveal_statuses i es (step e s) = pre @ 200 # post" by simp
    show ?thesis
    proof (cases pre)
      case Nil
      with eq have "st = 200" and post: "post = reveal_statuses i es (step e s)" by simp_all
      with st have "200 \<in> set (reveal_status i e s)" by simp
      from reveal_statuses_spent [OF reveal_status_200 [OF this], of es] post
      show ?thesis by (simp add: reveals_ok_Cons)
    next
      case (Cons p pre')
      with eq have "reveal_statuses i es (step e s) = pre' @ 200 # post" by simp
      from Cons.IH [OF this] show ?thesis by (simp add: reveals_ok_Cons)
    qed
  qed
qed

lemma success_count:
  "length (filter (\<lambda>st. st = 200) (reveal_statuses i es s)) \<le> 1"
proof (induction es arbitrary: s)
  case Nil
  then show ?case by simp
next
  case (Cons e es)
  show ?case
  proof (cases "200 \<in> set (reveal_status i e s)")
    case True
    from reveal_statuses_spent [OF reveal_status_200 [OF True], of es]
    have "filter (\<lambda>st. st = 200) (reveal_statuses i es (step e s)) = []"
      by (auto simp: filter_empty_conv)
    with reveal_status_short [of i e s] show ?thesis by auto
  next
    case False
    then have "filter (\<lambda>st. st = 200) (reveal_status i e s) = []"
      by (auto simp: filter_empty_conv)
    with Cons.IH [of "step e s"] show ?thesis by simp
  qed
qed

text \<open>
  C2. In every history (requests on any route, sweeps, the clock moving, in any order
  and with any storage faults), among the reveal calls on a note id, direct or web, at
  most one answers 200. Every reveal call on that id after the one that answered 200
  answers 410, or 500 if its own storage call throws; with the storage layer working
  for the reveal calls, every one of them answers 410. A note that is marked viewed
  is still there and still marked viewed after any history.
\<close>

theorem at_most_once_reveal:
  "length (filter (\<lambda>st. st = 200) (reveal_statuses i es s)) \<le> 1
   \<and> (\<forall>pre post. reveal_statuses i es s = pre @ 200 # post \<longrightarrow>
        (\<forall>st \<in> set post. (st = 410 \<or> st = 500) \<and> (reveals_ok i es \<longrightarrow> st = 410)))
   \<and> (spent i s \<longrightarrow> spent i (final es s))"
  using success_count [of i es s] after_success [of i es s] final_spent [of i s es]
  by blast

text \<open>The sample world, evaluated.\<close>

lemma hello_first_reveal:
  "api_get_note [] ''X'' hello_world
     = (json (NoteContent ''hello'' True) 200,
        \<lparr>noteRows = [hello_note\<lparr>viewed := True\<rparr>], noteUsages = [], timers = [(6000, ''X'')],
         now = 1000\<rparr>)"
  by (simp add: api_get_note_def api_get_note_resume_def note_findUnique_def note_update_def
      lookup_def hello_world_def hello_note_def throws_def setTimeout_scrub_def
      GRACE_DELAY_MS_def)

lemma spent_world_reveal:
  "api_get_note [] ''X'' spent_world
     = (json (NoteError ''This note has already been viewed and destroyed'' ''ALREADY_VIEWED'') 410,
        spent_world)"
  "web_reveal [] ''X'' spent_world = (json (RevealError ''Note already viewed'') 410, spent_world)"
  by (simp_all add: api_get_note_def api_get_note_resume_def web_reveal_def web_reveal_resume_def
      note_findUnique_def lookup_def spent_world_def hello_note_def throws_def)

theorem at_most_once_reveal_witness:
  "reveal_statuses ''X'' [ApiGetNote [] ''X'', WebReveal [] ''X'', ApiGetNote [] ''X''] hello_world
     = [] @ 200 # [410, 410]
   \<and> reveals_ok ''X'' [ApiGetNote [] ''X'', WebReveal [] ''X'', ApiGetNote [] ''X'']
   \<and> set (drop 1 (reveal_statuses ''X''
              [ApiGetNote [] ''X'', WebReveal [] ''X'', ApiGetNote [] ''X''] hello_world))
         \<subseteq> {410}
   \<and> length (filter (\<lambda>st. st = 200)
        (reveal_statuses ''X'' [ApiGetNote [] ''X'', WebReveal [] ''X'', ApiGetNote [] ''X'']
           hello_world)) \<le> 1
   \<and> spent ''X'' spent_world
   \<and> spent ''X'' (final [ApiGetNote [] ''X'', WebReveal [] ''X'', ApiGetNote [] ''X''] spent_world)"
proof -
  let ?es = "[ApiGetNote [] ''X'', WebReveal [] ''X'', ApiGetNote [] ''X'']"
  have rs: "reveal_statuses ''X'' ?es hello_world = [] @ 200 # [410, 410]"
    by (simp add: hello_first_reveal spent_world_def [symmetric] spent_world_reveal json_def)
  have ok: "reveals_ok ''X'' ?es" by (simp add: reveals_ok_def storage_ok_def)
  have sp: "spent ''X'' spent_world"
    by (simp add: spent_def lookup_def spent_world_def hello_note_def)
  note t = at_most_once_reveal [of "''X''" ?es hello_world]
  note u = at_most_once_reveal [of "''X''" ?es spent_world]
  from t have c: "length (filter (\<lambda>st. st = 200) (reveal_statuses ''X'' ?es hello_world)) \<le> 1"
    by blast
  from u sp have f: "spent ''X'' (final ?es spent_world)" by blast
  from t rs have "\<forall>st \<in> set [410, 410].
      (st = 410 \<or> st = 500) \<and> (reveals_ok ''X'' ?es \<longrightarrow> st = (410::nat))"
    by blast
  with ok rs have d: "set (drop 1 (reveal_statuses ''X'' ?es hello_world)) \<subseteq> {410}"
    by simp
  from rs ok d c sp f show ?thesis by blast
qed

section \<open>The life of a note\<close>

lemma reveal_world: "snd (reveal sf fs i s) = snd (web_reveal fs i s)"
  by (cases sf) (simp_all add: reveal_def api_get_note_world)

lemma reveal_status_eq: "status (fst (reveal sf fs i s)) = status (fst (web_reveal fs i s))"
  by (cases sf) (simp_all add: reveal_def api_get_note_status)

lemma final_append: "final (es @ es') s = final es' (final es s)"
  by (induction es arbitrary: s) simp_all

lemma reveal_unread:
  assumes "storage_ok fs" and "lookup s i = Some n" and "\<not> viewed n"
  shows "status (fst (reveal sf fs i s)) = 200"
    and "lookup (snd (reveal sf fs i s)) i = Some (n\<lparr>viewed := True\<rparr>)"
    and "timers (snd (reveal sf fs i s)) = timers s @ [(now s + 5000, i)]"
    and "now (snd (reveal sf fs i s)) = now s"
  using assms
  by (simp_all add: reveal_world reveal_status_eq web_reveal_status_ok reveal_class_def
      web_reveal_lookup web_reveal_timers web_reveal_frame GRACE_DELAY_MS_def)

lemma before_grace:
  assumes ts: "timers_spent s" and ok: "storage_ok fs"
    and l: "lookup s i = Some n" and nv: "\<not> viewed n"
    and t: "t < now s + 5000"
  shows "lookup (advance fs' t (snd (reveal sf fs i s))) i = Some (n\<lparr>viewed := True\<rparr>)"
proof -
  let ?s1 = "snd (reveal sf fs i s)"
  note r = reveal_unread [OF ok l nv, of sf]
  show ?thesis
  proof (cases "t < now ?s1")
    case True
    with r(2) show ?thesis by (simp add: advance_def)
  next
    case False
    let ?s2 = "?s1\<lparr>timers := filter (\<lambda>(d, i). \<not> d \<le> t) (timers ?s1), now := t\<rparr>"
    from unread_no_timer [OF ts l nv] t r(3)
    have "i \<notin> set (map snd (filter (\<lambda>(d, i). d \<le> t) (timers ?s1)))" by auto
    from run_scrubs_other [OF this, of fs' ?s2] r(2) False show ?thesis
      by (simp add: advance_def lookup_def)
  qed
qed

lemma after_grace:
  assumes ok: "storage_ok fs" and ok': "storage_ok fs'"
    and l: "lookup s i = Some n" and nv: "\<not> viewed n"
    and t: "now s + 5000 \<le> t"
  shows "lookup (advance fs' t (snd (reveal sf fs i s))) i
           = Some (n\<lparr>viewed := True, content := ''[DESTROYED]''\<rparr>)"
proof -
  let ?s1 = "snd (reveal sf fs i s)"
  note r = reveal_unread [OF ok l nv, of sf]
  let ?s2 = "?s1\<lparr>timers := filter (\<lambda>(d, i). \<not> d \<le> t) (timers ?s1), now := t\<rparr>"
  from t r(4) have nt: "\<not> t < now ?s1" by simp
  from t r(3) have due: "i \<in> set (map snd (filter (\<lambda>(d, i). d \<le> t) (timers ?s1)))"
    by force
  from r(2) have "lookup ?s2 i = Some (n\<lparr>viewed := True\<rparr>)" by (simp add: lookup_def)
  from run_scrubs_hit [OF ok' due this] nt show ?thesis
    by (simp add: advance_def SENTINEL_def)
qed

text \<open>
  C6. Take a world where the ids are unique and every armed timer is for a viewed note
  (both hold in every world reached from the empty store, lemma
  \<open>reachable_invariants\<close>), and an unread note in it. Whatever happens next, the
  note is then deleted, unchanged, or the same note marked viewed: it never reaches
  the sentinel in one move. A reveal on either surface, with the storage layer
  working, answers 200 and leaves the note marked viewed with its content unchanged
  and a scrub armed for 5000 ms later; the response does not wait for it. Moving the
  clock to any time before that leaves the content in place; moving it to that time or
  later, with the scrub's update succeeding, leaves the same row with the content
  \<open>[DESTROYED]\<close> and still viewed. After the reveal, through every history, the row
  is one of these two, and once it holds the sentinel it holds it for good.
\<close>

theorem scrub_lifecycle:
  assumes ts: "timers_spent s" and pk: "primary_key s" and ok: "storage_ok fs"
    and l: "lookup s i = Some n" and nv: "\<not> viewed n"
  shows "(\<forall>e. lookup (step e s) i = None \<or> lookup (step e s) i = Some n
              \<or> lookup (step e s) i = Some (n\<lparr>viewed := True\<rparr>))
       \<and> status (fst (reveal sf fs i s)) = 200
       \<and> lookup (snd (reveal sf fs i s)) i = Some (n\<lparr>viewed := True\<rparr>)
       \<and> (now s + 5000, i) \<in> set (timers (snd (reveal sf fs i s)))
       \<and> (\<forall>t fs'. t < now s + 5000 \<longrightarrow>
             lookup (advance fs' t (snd (reveal sf fs i s))) i = Some (n\<lparr>viewed := True\<rparr>))
       \<and> (\<forall>t fs'. now s + 5000 \<le> t \<and> storage_ok fs' \<longrightarrow>
             lookup (advance fs' t (snd (reveal sf fs i s))) i
               = Some (n\<lparr>viewed := True, content := ''[DESTROYED]''\<rparr>))
       \<and> (\<forall>es. lookup (final es (snd (reveal sf fs i s))) i = Some (n\<lparr>viewed := True\<rparr>)
              \<or> lookup (final es (snd (reveal sf fs i s))) i
                   = Some (n\<lparr>viewed := True, content := ''[DESTROYED]''\<rparr>))
       \<and> (\<forall>es es'. lookup (final es (snd (reveal sf fs i s))) i
                       = Some (n\<lparr>viewed := True, content := ''[DESTROYED]''\<rparr>) \<longrightarrow>
             lookup (final (es @ es') (snd (reveal sf fs i s))) i
               = Some (n\<lparr>viewed := True, content := ''[DESTROYED]''\<rparr>))"
proof -
  let ?s1 = "snd (reveal sf fs i s)"
  let ?v = "n\<lparr>viewed := True\<rparr>"
  let ?d = "n\<lparr>viewed := True, content := ''[DESTROYED]''\<rparr>"
  note r = reveal_unread [OF ok l nv, of sf]
  have a: "\<forall>e. lookup (step e s) i = None \<or> lookup (step e s) i = Some n
              \<or> lookup (step e s) i = Some ?v"
    using step_unread [OF pk ts l nv] by blast
  have b: "(now s + 5000, i) \<in> set (timers ?s1)" by (simp add: r(3))
  have c: "\<forall>t fs'. t < now s + 5000 \<longrightarrow> lookup (advance fs' t ?s1) i = Some ?v"
    using before_grace [OF ts ok l nv] by blast
  have d: "\<forall>t fs'. now s + 5000 \<le> t \<and> storage_ok fs' \<longrightarrow> lookup (advance fs' t ?s1) i = Some ?d"
    using after_grace [OF ok _ l nv] by blast
  have e: "lookup (final es ?s1) i = Some ?v \<or> lookup (final es ?s1) i = Some ?d" for es
    using final_viewed [OF r(2), of es] by (simp add: SENTINEL_def)
  have f: "lookup (final (es @ es') ?s1) i = Some ?d"
    if "lookup (final es ?s1) i = Some ?d" for es es'
    using final_viewed [OF that, of es'] by (simp add: final_append SENTINEL_def)
  from a r(1) r(2) b c d e f show ?thesis by blast
qed

lemma reachable_invariants:
  "primary_key (final es (empty_world t)) \<and> timers_spent (final es (empty_world t))"
proof -
  have "primary_key (empty_world t)" "timers_spent (empty_world t)"
    by (simp_all add: primary_key_def timers_spent_def empty_world_def)
  then show ?thesis by (simp add: final_primary_key final_timers_spent)
qed

lemma hello_world_invariants: "timers_spent hello_world \<and> primary_key hello_world"
  by (simp add: timers_spent_def primary_key_def hello_world_def)

theorem scrub_lifecycle_witness:
  "timers_spent hello_world \<and> primary_key hello_world \<and> storage_ok []
   \<and> lookup hello_world ''X'' = Some hello_note \<and> \<not> viewed hello_note
   \<and> status (fst (reveal DirectApi [] ''X'' hello_world)) = 200
   \<and> lookup (snd (reveal DirectApi [] ''X'' hello_world)) ''X'' = Some (hello_note\<lparr>viewed := True\<rparr>)
   \<and> (now hello_world + 5000, ''X'') \<in> set (timers (snd (reveal DirectApi [] ''X'' hello_world)))
   \<and> 5999 < now hello_world + 5000
   \<and> lookup (advance [] 5999 (snd (reveal DirectApi [] ''X'' hello_world))) ''X''
       = Some (hello_note\<lparr>viewed := True\<rparr>)
   \<and> now hello_world + 5000 \<le> 6000
   \<and> lookup (advance [] 6000 (snd (reveal DirectApi [] ''X'' hello_world))) ''X''
       = Some (hello_note\<lparr>viewed := True, content := ''[DESTROYED]''\<rparr>)
   \<and> lookup (final ([ClockAdvance [] 6000] @ [ApiGetNote [] ''X'', Cleanup utc []])
               (snd (reveal DirectApi [] ''X'' hello_world))) ''X''
       = Some (hello_note\<lparr>viewed := True, content := ''[DESTROYED]''\<rparr>)"
proof -
  have nv: "\<not> viewed hello_note" by (simp add: hello_note_def)
  have clk: "now hello_world = 1000" by (simp add: hello_world_def)
  note inv = hello_world_invariants
  note t = scrub_lifecycle [OF inv [THEN conjunct1] inv [THEN conjunct2] storage_ok_Nil
      lookup_hello_world nv, of DirectApi]
  let ?s1 = "snd (reveal DirectApi [] ''X'' hello_world)"
  from t have a: "status (fst (reveal DirectApi [] ''X'' hello_world)) = 200"
    and b: "lookup ?s1 ''X'' = Some (hello_note\<lparr>viewed := True\<rparr>)"
    and c: "(now hello_world + 5000, ''X'') \<in> set (timers ?s1)"
    by blast+
  from t have d: "\<forall>t fs'. t < now hello_world + 5000 \<longrightarrow>
             lookup (advance fs' t ?s1) ''X'' = Some (hello_note\<lparr>viewed := True\<rparr>)"
    and e: "\<forall>t fs'. now hello_world + 5000 \<le> t \<and> storage_ok fs' \<longrightarrow>
             lookup (advance fs' t ?s1) ''X''
               = Some (hello_note\<lparr>viewed := True, content := ''[DESTROYED]''\<rparr>)"
    and f: "\<forall>es es'. lookup (final es ?s1) ''X''
                       = Some (hello_note\<lparr>viewed := True, content := ''[DESTROYED]''\<rparr>) \<longrightarrow>
             lookup (final (es @ es') ?s1) ''X''
               = Some (hello_note\<lparr>viewed := True, content := ''[DESTROYED]''\<rparr>)"
    by blast+
  have lt: "5999 < now hello_world + 5000" and ge: "now hello_world + 5000 \<le> 6000"
    by (simp_all add: clk)
  from d lt have d1: "lookup (advance [] 5999 ?s1) ''X'' = Some (hello_note\<lparr>viewed := True\<rparr>)"
    by blast
  from e ge storage_ok_Nil
  have e1: "lookup (advance [] 6000 ?s1) ''X''
              = Some (hello_note\<lparr>viewed := True, content := ''[DESTROYED]''\<rparr>)"
    by blast
  then have "lookup (final [ClockAdvance [] 6000] ?s1) ''X''
              = Some (hello_note\<lparr>viewed := True, content := ''[DESTROYED]''\<rparr>)"
    by simp
  with f have f1: "lookup (final ([ClockAdvance [] 6000] @ [ApiGetNote [] ''X'', Cleanup utc []]) ?s1) ''X''
              = Some (hello_note\<lparr>viewed := True, content := ''[DESTROYED]''\<rparr>)"
    by blast
  from inv storage_ok_Nil lookup_hello_world nv a b c lt d1 ge e1 f1 show ?thesis by blast
qed

section \<open>Two reveals of one note\<close>

lemma reveal_resume_stale:
  assumes "\<not> throws fs 1" and "lookup s i = Some m" and "\<not> viewed n"
  shows "status (fst (reveal_resume sf fs i (Inr (Some n)) s)) = 200"
    and "lookup (snd (reveal_resume sf fs i (Inr (Some n)) s)) i = Some (m\<lparr>viewed := True\<rparr>)"
  using assms
  by (cases sf; simp add: reveal_resume_def api_get_note_resume_def web_reveal_resume_def
      note_update_def json_def lookup_update_rows lookup_setTimeout_scrub)+

text \<open>
  C3, as amended. Each reveal surface reads the note and, after the \<open>await\<close>,
  writes \<open>viewed = true\<close> by id alone, whatever the flag is by then. For an unread note
  and a working storage layer: two requests that run one after the other answer 200 and
  410; two requests that have both read before either writes answer 200 both. Either
  way the note ends marked viewed.
\<close>

theorem reveal_race:
  assumes ok1: "storage_ok fs1" and ok2: "storage_ok fs2"
    and l: "lookup s i = Some n" and nv: "\<not> viewed n"
  shows "status (fst (one_after_other sf1 sf2 fs1 fs2 i s)) = 200
       \<and> status (fst (snd (one_after_other sf1 sf2 fs1 fs2 i s))) = 410
       \<and> status (fst (both_read_first sf1 sf2 fs1 fs2 i s)) = 200
       \<and> status (fst (snd (both_read_first sf1 sf2 fs1 fs2 i s))) = 200
       \<and> lookup (snd (snd (one_after_other sf1 sf2 fs1 fs2 i s))) i = Some (n\<lparr>viewed := True\<rparr>)
       \<and> lookup (snd (snd (both_read_first sf1 sf2 fs1 fs2 i s))) i = Some (n\<lparr>viewed := True\<rparr>)"
proof -
  note r = reveal_unread [OF ok1 l nv, of sf1]
  have v: "viewed (n\<lparr>viewed := True\<rparr>)" by simp
  have second: "status (fst (reveal sf2 fs2 i (snd (reveal sf1 fs1 i s)))) = 410"
    using ok2 r(2) by (simp add: reveal_status_eq web_reveal_status_ok reveal_class_def)
  have second_w: "lookup (snd (reveal sf2 fs2 i (snd (reveal sf1 fs1 i s)))) i
                    = Some (n\<lparr>viewed := True\<rparr>)"
    using second r(2) by (simp add: reveal_world reveal_status_eq web_reveal_lookup)
  have seq: "one_after_other sf1 sf2 fs1 fs2 i s
      = (fst (reveal sf1 fs1 i s), fst (reveal sf2 fs2 i (snd (reveal sf1 fs1 i s))),
         snd (reveal sf2 fs2 i (snd (reveal sf1 fs1 i s))))"
    by (simp add: one_after_other_def split: prod.splits)
  note t1 = storage_ok_throws [OF ok1] and t2 = storage_ok_throws [OF ok2]
  let ?a = "reveal_resume sf1 fs1 i (Inr (Some n)) s"
  let ?b = "reveal_resume sf2 fs2 i (Inr (Some n)) (snd ?a)"
  note a = reveal_resume_stale [OF t1 l nv, of sf1]
  note b = reveal_resume_stale [OF t2 a(2) nv, of sf2]
  have race: "both_read_first sf1 sf2 fs1 fs2 i s = (fst ?a, fst ?b, snd ?b)"
    using t1 t2 l by (simp add: both_read_first_def note_findUnique_def split: prod.splits)
  from r(1) second second_w a(1) b show ?thesis
    by (simp add: seq race)
qed

text \<open>
  C3, as stated, fails: two direct requests for the unread note \<open>X\<close> whose lookups both
  run before either update both answer 200 with the content \<open>hello\<close>.
\<close>

theorem reveal_race_counterexample:
  "fst (both_read_first DirectApi DirectApi [] [] ''X'' hello_world)
     = json (NoteContent ''hello'' True) 200
   \<and> fst (snd (both_read_first DirectApi DirectApi [] [] ''X'' hello_world))
     = json (NoteContent ''hello'' True) 200"
  by (simp add: both_read_first_def reveal_resume_def api_get_note_resume_def
      note_findUnique_def note_update_def lookup_def hello_world_def hello_note_def throws_def
      setTimeout_scrub_def)

theorem reveal_race_witness:
  "storage_ok [] \<and> lookup hello_world ''X'' = Some hello_note \<and> \<not> viewed hello_note
   \<and> status (fst (one_after_other DirectApi WebAction [] [] ''X'' hello_world)) = 200
   \<and> status (fst (snd (one_after_other DirectApi WebAction [] [] ''X'' hello_world))) = 410
   \<and> status (fst (both_read_first DirectApi WebAction [] [] ''X'' hello_world)) = 200
   \<and> status (fst (snd (both_read_first DirectApi WebAction [] [] ''X'' hello_world))) = 200"
proof -
  have nv: "\<not> viewed hello_note" by (simp add: hello_note_def)
  note t = reveal_race [OF storage_ok_Nil storage_ok_Nil lookup_hello_world nv,
      of DirectApi WebAction]
  from t storage_ok_Nil lookup_hello_world nv show ?thesis by blast
qed

section \<open>What a lookup answers for a note that is gone\<close>

lemma web_get_note_status_ok:
  "\<not> throws fs 0 \<Longrightarrow> status (fst (web_get_note fs i s)) = reveal_class (lookup s i)"
  by (simp add: web_get_note_def note_findUnique_def html_def reveal_class_def
      split: option.splits)

lemma api_get_note_absent:
  "storage_ok fs \<Longrightarrow> lookup s i = None \<Longrightarrow>
     fst (api_get_note fs i s) = json (NoteError ''Note not found'' ''NOT_FOUND'') 404"
  using storage_ok_throws [of fs 0]
  by (simp add: api_get_note_def api_get_note_resume_def note_findUnique_def)

lemma api_get_note_viewed:
  "storage_ok fs \<Longrightarrow> lookup s i = Some n \<Longrightarrow> viewed n \<Longrightarrow>
     fst (api_get_note fs i s)
       = json (NoteError ''This note has already been viewed and destroyed'' ''ALREADY_VIEWED'') 410"
  using storage_ok_throws [of fs 0]
  by (simp add: api_get_note_def api_get_note_resume_def note_findUnique_def)

lemma cleanup_expired_gone:
  assumes "\<not> throws fs 0" and "primary_key s" and "lookup s i = Some n"
    and "\<not> viewed n" and "createdAt n < expiryDate tz (now s)"
  shows "lookup (snd (cleanupExpiredNotes tz fs s)) i = None"
proof -
  from assms(1)
  have "noteRows (snd (cleanupExpiredNotes tz fs s)) = filter (\<lambda>n. \<not> expired tz (now s) n) (noteRows s)"
    by (simp add: cleanupExpiredNotes_def note_deleteMany_def)
  moreover from assms(4,5) have "expired tz (now s) n" by (simp add: expired_eq)
  ultimately show ?thesis
    using assms(2,3) find_filter_distinct [of "noteRows s" i "\<lambda>n. \<not> expired tz (now s) n"]
    by (simp add: lookup_def primary_key_def)
qed

text \<open>
  C9, as amended. With the storage layer working, an id that never existed and a note
  that expired and was deleted by the sweep are answered alike: 404 with code
  \<open>NOT_FOUND\<close> on the direct route, 404 on the page load and on the reveal action. A
  note that was revealed and then scrubbed keeps its row, and is answered 410 with code
  \<open>ALREADY_VIEWED\<close> on the direct route and 410 on the two web routes.
\<close>

theorem lookup_error_categories:
  assumes ok: "storage_ok fs"
  shows "(lookup s i = None \<longrightarrow>
            fst (api_get_note fs i s) = json (NoteError ''Note not found'' ''NOT_FOUND'') 404
          \<and> status (fst (web_get_note fs i s)) = 404
          \<and> status (fst (web_reveal fs i s)) = 404)
       \<and> (\<forall>n tz fs'. \<not> throws fs' 0 \<and> primary_key s \<and> lookup s i = Some n \<and> \<not> viewed n
                  \<and> createdAt n < expiryDate tz (now s) \<longrightarrow>
            fst (api_get_note fs i (snd (cleanupExpiredNotes tz fs' s)))
              = json (NoteError ''Note not found'' ''NOT_FOUND'') 404
          \<and> status (fst (web_get_note fs i (snd (cleanupExpiredNotes tz fs' s)))) = 404
          \<and> status (fst (web_reveal fs i (snd (cleanupExpiredNotes tz fs' s)))) = 404)
       \<and> (\<forall>n sf fs1 fs2 t. storage_ok fs1 \<and> storage_ok fs2 \<and> lookup s i = Some n \<and> \<not> viewed n
                  \<and> now s + 5000 \<le> t \<longrightarrow>
            lookup (advance fs2 t (snd (reveal sf fs1 i s))) i
              = Some (n\<lparr>viewed := True, content := ''[DESTROYED]''\<rparr>)
          \<and> fst (api_get_note fs i (advance fs2 t (snd (reveal sf fs1 i s))))
              = json (NoteError ''This note has already been viewed and destroyed''
                        ''ALREADY_VIEWED'') 410
          \<and> status (fst (web_get_note fs i (advance fs2 t (snd (reveal sf fs1 i s))))) = 410
          \<and> status (fst (web_reveal fs i (advance fs2 t (snd (reveal sf fs1 i s))))) = 410)"
proof -
  note t0 = storage_ok_throws [OF ok, of 0]
  have absent: "fst (api_get_note fs i w) = json (NoteError ''Note not found'' ''NOT_FOUND'') 404
          \<and> status (fst (web_get_note fs i w)) = 404
          \<and> status (fst (web_reveal fs i w)) = 404" if "lookup w i = None" for w
    using that ok t0
    by (simp add: api_get_note_absent web_get_note_status_ok web_reveal_status_ok reveal_class_def)
  have seen: "fst (api_get_note fs i w)
              = json (NoteError ''This note has already been viewed and destroyed''
                        ''ALREADY_VIEWED'') 410
          \<and> status (fst (web_get_note fs i w)) = 410
          \<and> status (fst (web_reveal fs i w)) = 410" if "lookup w i = Some m" "viewed m" for w m
    using that ok t0
    by (simp add: api_get_note_viewed web_get_note_status_ok web_reveal_status_ok reveal_class_def)
  have swept: "lookup (snd (cleanupExpiredNotes tz fs' s)) i = None"
    if "\<not> throws fs' 0" "primary_key s" "lookup s i = Some n" "\<not> viewed n"
       "createdAt n < expiryDate tz (now s)" for n tz fs'
    using that by (rule cleanup_expired_gone)
  have scrubbed: "lookup (advance fs2 t (snd (reveal sf fs1 i s))) i
              = Some (n\<lparr>viewed := True, content := ''[DESTROYED]''\<rparr>)"
    if "storage_ok fs1" "storage_ok fs2" "lookup s i = Some n" "\<not> viewed n" "now s + 5000 \<le> t"
    for n sf fs1 fs2 t
    using that by (rule after_grace)
  have v: "viewed (n\<lparr>viewed := True, content := ''[DESTROYED]''\<rparr>)" for n :: Note by simp
  show ?thesis
    using absent [of s] absent [OF swept] scrubbed seen [OF scrubbed v] by blast
qed

text \<open>
  C9, as stated, fails: once note \<open>X\<close> has been revealed and scrubbed, a lookup of
  \<open>X\<close> answers 410 \<open>ALREADY_VIEWED\<close>, while a lookup of the unknown id \<open>zzz\<close> in the
  same world answers 404 \<open>NOT_FOUND\<close>.
\<close>

theorem scrubbed_lookup_counterexample:
  "lookup (advance [] 6000 (snd (api_get_note [] ''X'' hello_world))) ''X''
     = Some (hello_note\<lparr>viewed := True, content := ''[DESTROYED]''\<rparr>)
   \<and> lookup (advance [] 6000 (snd (api_get_note [] ''X'' hello_world))) ''zzz'' = None
   \<and> fst (api_get_note [] ''X'' (advance [] 6000 (snd (api_get_note [] ''X'' hello_world))))
     = json (NoteError ''This note has already been viewed and destroyed'' ''ALREADY_VIEWED'') 410
   \<and> fst (api_get_note [] ''zzz'' (advance [] 6000 (snd (api_get_note [] ''X'' hello_world))))
     = json (NoteError ''Note not found'' ''NOT_FOUND'') 404
   \<and> fst (api_get_note [] ''X'' (advance [] 6000 (snd (api_get_note [] ''X'' hello_world))))
     \<noteq> fst (api_get_note [] ''zzz'' (advance [] 6000 (snd (api_get_note [] ''X'' hello_world))))"
proof -
  have w: "advance [] 6000 (snd (api_get_note [] ''X'' hello_world))
             = \<lparr>noteRows = [hello_note\<lparr>viewed := True, content := ''[DESTROYED]''\<rparr>],
                noteUsages = [], timers = [], now = 6000\<rparr>"
    by (simp add: hello_first_reveal advance_def scrub_def note_update_def lookup_def
        throws_def hello_note_def SENTINEL_def)
  show ?thesis
    unfolding w
    by (simp add: api_get_note_def api_get_note_resume_def note_findUnique_def lookup_def
        throws_def hello_note_def json_def)
qed

theorem lookup_error_categories_witness:
  "storage_ok []
   \<and> lookup hello_world ''zzz'' = None
   \<and> fst (api_get_note [] ''zzz'' hello_world) = json (NoteError ''Note not found'' ''NOT_FOUND'') 404
   \<and> \<not> throws [] 0 \<and> primary_key sweep_world \<and> lookup sweep_world ''A'' = Some old_unread
   \<and> \<not> viewed old_unread \<and> createdAt old_unread < expiryDate utc (now sweep_world)
   \<and> fst (api_get_note [] ''A'' (snd (cleanupExpiredNotes utc [] sweep_world)))
       = json (NoteError ''Note not found'' ''NOT_FOUND'') 404
   \<and> lookup hello_world ''X'' = Some hello_note \<and> \<not> viewed hello_note
   \<and> now hello_world + 5000 \<le> 6000
   \<and> fst (api_get_note [] ''X'' (advance [] 6000 (snd (reveal WebAction [] ''X'' hello_world))))
       = json (NoteError ''This note has already been viewed and destroyed'' ''ALREADY_VIEWED'') 410"
proof -
  have nt: "\<not> throws [] 0" by (simp add: throws_def)
  have pk: "primary_key sweep_world"
    by (simp add: primary_key_def sweep_world_def old_unread_def old_viewed_def young_unread_def)
  have la: "lookup sweep_world ''A'' = Some old_unread"
    by (simp add: lookup_def sweep_world_def old_unread_def)
  have a: "\<not> viewed old_unread" "createdAt old_unread < expiryDate utc (now sweep_world)"
    by (simp_all add: old_unread_def sweep_world_def expiryDate_utc)
  have nv: "\<not> viewed hello_note" by (simp add: hello_note_def)
  have ge: "now hello_world + 5000 \<le> 6000" by (simp add: hello_world_def)
  note t1 = lookup_error_categories [OF storage_ok_Nil, of hello_world "''zzz''"]
  note t2 = lookup_error_categories [OF storage_ok_Nil, of sweep_world "''A''"]
  note t3 = lookup_error_categories [OF storage_ok_Nil, of hello_world "''X''"]
  from t1 lookup_hello_world_other
  have r1: "fst (api_get_note [] ''zzz'' hello_world)
              = json (NoteError ''Note not found'' ''NOT_FOUND'') 404"
    by blast
  from t2 nt pk la a
  have r2: "fst (api_get_note [] ''A'' (snd (cleanupExpiredNotes utc [] sweep_world)))
              = json (NoteError ''Note not found'' ''NOT_FOUND'') 404"
    by blast
  from t3 storage_ok_Nil lookup_hello_world nv ge
  have r3: "fst (api_get_note [] ''X'' (advance [] 6000 (snd (reveal WebAction [] ''X'' hello_world))))
       = json (NoteError ''This note has already been viewed and destroyed'' ''ALREADY_VIEWED'') 410"
    by blast
  from storage_ok_Nil lookup_hello_world_other r1 nt pk la a r2 lookup_hello_world nv ge r3
  show ?thesis by blast
qed

end
